theory Spec2Isabelle
  imports Complex_Main "HOL-Library.AList" "HOL-Library.Multiset"
begin

section \<open>Data model\<close>

text \<open>
  The engine of the image search application: the indexed search of
  \<^verbatim>\<open>batch_processing/batch_search.py\<close>, the indexer of
  \<^verbatim>\<open>batch_processing/feature_indexer.py\<close> and the worker threads of
  \<^verbatim>\<open>workers/\<close> and \<^verbatim>\<open>ui/main_window.py\<close>.

  A similarity is a Python float. The engine never computes with it: it compares it with the
  threshold, with another similarity, and sorts by it. It is modelled as a rational number.
  A Python dictionary keeps its keys in insertion order, and the engine iterates over its
  dictionaries, so a dictionary is an association list with distinct keys: \<open>map_of\<close> reads
  it and \<open>AList.update\<close> assigns to a key (in place when the key is there, at the end
  otherwise).
\<close>

type_synonym path = string
type_synonym score = rat
type_synonym result = "path \<times> score"

text \<open>
  A feature value is what an extractor returns: a numpy array, which has the attributes
  \<^verbatim>\<open>ndim\<close> and \<^verbatim>\<open>shape\<close>, or another Python object (a list, a tuple), which has
  neither. Only the shape and the length are read by the engine; the contents go to the
  extractor.
\<close>

datatype feature_value =
    NdArray (dims: "nat list") (elems: "int list")
  | PyObj (items: "int list")

text \<open>\<^verbatim>\<open>hasattr(x, 'shape')\<close> and \<^verbatim>\<open>x.shape\<close>.\<close>

fun shape_of :: "feature_value \<Rightarrow> nat list option" where
  "shape_of (NdArray ds es) = Some ds"
| "shape_of (PyObj xs) = None"

text \<open>
  \<^verbatim>\<open>if hasattr(x, 'ndim') and x.ndim > 1: x = x.reshape(-1)\<close>: an array of two or more
  dimensions becomes one-dimensional, of the product of its dimensions.
\<close>

fun flatten :: "feature_value \<Rightarrow> feature_value" where
  "flatten (NdArray ds es) =
     (if length ds > 1 then NdArray [prod_list ds] es else NdArray ds es)"
| "flatten (PyObj xs) = PyObj xs"

text \<open>
  \<^verbatim>\<open>len(x)\<close>: the first dimension of an array (a zero-dimensional array raises
  \<^verbatim>\<open>TypeError\<close>, which is \<open>None\<close> here), the number of items of another object.
\<close>

fun py_len :: "feature_value \<Rightarrow> nat option" where
  "py_len (NdArray [] es) = None"
| "py_len (NdArray (d # ds) es) = Some d"
| "py_len (PyObj xs) = Some (length xs)"

text \<open>
  An extractor, as the engine uses it: its name and its two operations. An operation of an
  extractor can raise; \<^verbatim>\<open>extract_features\<close> can also return \<^verbatim>\<open>None\<close>.
\<close>

datatype extraction = ExtractRaises | NoFeatures | Features feature_value

record extractor =
  name :: string
  extract_features :: "path \<Rightarrow> extraction"
  compare_features :: "feature_value \<Rightarrow> feature_value \<Rightarrow> score option"

text \<open>The dictionary that the indexer pickles and the search unpickles.\<close>

record index_data =
  extractor_name :: string
  features :: "(path \<times> feature_value) list"
  timestamp :: rat

section \<open>Sorting and limiting a result list\<close>

text \<open>
  \<^verbatim>\<open>results.sort(key=lambda x: x[1], reverse=True)\<close>: a stable sort by descending
  similarity (Python's reversed sort keeps equal elements in their original order).
\<close>

definition sort_by_similarity :: "result list \<Rightarrow> result list" where
  "sort_by_similarity results = sort_key (\<lambda>x. - snd x) results"

text \<open>\<^verbatim>\<open>if max_results > 0: results = results[:max_results]\<close>.\<close>

definition limit_results :: "int \<Rightarrow> result list \<Rightarrow> result list" where
  "limit_results max_results results =
     (if max_results > 0 then take (nat max_results) results else results)"

section \<open>Search in one index: \<^verbatim>\<open>BatchSearchProcessor\<close>\<close>

text \<open>
  What a search reads from outside: the index files (\<open>None\<close> where opening or unpickling
  the file fails), which image files exist, and the list \<^verbatim>\<open>AVAILABLE_EXTRACTORS\<close>.
\<close>

record search_env =
  storage :: "path \<Rightarrow> index_data option"
  path_exists :: "path \<Rightarrow> bool"
  available_extractors :: "extractor list"

text \<open>
  The processor holds the dictionary \<^verbatim>\<open>self.indexes\<close>. Two traces are kept beside it, so
  that statements about what a search does can be made: the index files opened, and the
  image paths whose features were handed to \<^verbatim>\<open>compare_features\<close>.
\<close>

record processor =
  indexes :: "(path \<times> index_data) list"
  opened :: "path list"
  compared :: "path list"

text \<open>\<^verbatim>\<open>BatchSearchProcessor.__init__\<close>.\<close>

definition new_processor :: processor where
  "new_processor = \<lparr>indexes = [], opened = [], compared = []\<rparr>"

text \<open>\<^verbatim>\<open>load_index\<close>: always opens the file; stores the record and returns True, or returns False.\<close>

definition load_index :: "search_env \<Rightarrow> processor \<Rightarrow> path \<Rightarrow> bool \<times> processor" where
  "load_index env proc index_path =
     (case storage env index_path of
        Some data \<Rightarrow>
          (True, proc\<lparr>indexes := AList.update index_path data (indexes proc),
                      opened := opened proc @ [index_path]\<rparr>)
      | None \<Rightarrow> (False, proc\<lparr>opened := opened proc @ [index_path]\<rparr>))"

text \<open>
  The shape check of the loop: both values have a shape and the shapes differ.
\<close>

definition shape_mismatch :: "feature_value \<Rightarrow> feature_value \<Rightarrow> bool" where
  "shape_mismatch query_features feats =
     (case (shape_of query_features, shape_of feats) of
        (Some s1, Some s2) \<Rightarrow> s1 \<noteq> s2
      | _ \<Rightarrow> False)"

text \<open>
  The loop over \<^verbatim>\<open>features_dict.items()\<close>. The accumulator is the list \<^verbatim>\<open>results\<close> and
  the trace of the calls of \<^verbatim>\<open>compare_features\<close>. An exception of the comparison is caught
  and the entry is skipped.
\<close>

fun search_entries ::
  "extractor \<Rightarrow> (path \<Rightarrow> bool) \<Rightarrow> feature_value \<Rightarrow> score \<Rightarrow> (path \<times> feature_value) list \<Rightarrow>
   result list \<times> path list \<Rightarrow> result list \<times> path list" where
  "search_entries ext ex query_features threshold [] acc = acc"
| "search_entries ext ex query_features threshold ((img_path, feats) # rest) (results, calls) =
     (if \<not> ex img_path then
        search_entries ext ex query_features threshold rest (results, calls)
      else if shape_mismatch query_features (flatten feats) then
        search_entries ext ex query_features threshold rest (results, calls)
      else
        (case compare_features ext query_features (flatten feats) of
           None \<Rightarrow>
             search_entries ext ex query_features threshold rest (results, calls @ [img_path])
         | Some similarity \<Rightarrow>
             if similarity \<ge> threshold then
               search_entries ext ex query_features threshold rest
                 (results @ [(img_path, similarity)], calls @ [img_path])
             else
               search_entries ext ex query_features threshold rest
                 (results, calls @ [img_path])))"

datatype py_error = KeyError

text \<open>
  \<^verbatim>\<open>search_in_index\<close>. The result is the returned list, or the exception that leaves the
  method, together with the processor after the call.
\<close>

definition search_in_index ::
  "search_env \<Rightarrow> processor \<Rightarrow> feature_value \<Rightarrow> path \<Rightarrow> score \<Rightarrow> int \<Rightarrow>
   (py_error + result list) \<times> processor" where
  "search_in_index env proc query_features index_path similarity_threshold max_results =
     (let (loaded, proc1) =
            (if map_of (indexes proc) index_path = None
             then load_index env proc index_path else (True, proc))
      in if \<not> loaded then (Inr [], proc1)
         else
           (case map_of (indexes proc1) index_path of
              None \<Rightarrow> (Inl KeyError, proc1)
            | Some data \<Rightarrow>
                (case find (\<lambda>ext. name ext = extractor_name data) (available_extractors env) of
                   None \<Rightarrow> (Inr [], proc1)
                 | Some ext \<Rightarrow>
                     (let (results, calls) =
                            search_entries ext (path_exists env) (flatten query_features)
                              similarity_threshold (features data) ([], [])
                      in (Inr (limit_results max_results (sort_by_similarity results)),
                          proc1\<lparr>compared := compared proc1 @ calls\<rparr>)))))"

section \<open>Search in several indexes: \<^verbatim>\<open>MultiIndexSearch\<close>\<close>

text \<open>
  The loop that removes duplicates: a path enters \<^verbatim>\<open>unique_results\<close> when it is not
  there, and its similarity is replaced when the new one is strictly greater.
\<close>

fun unique_best :: "result list \<Rightarrow> result list \<Rightarrow> result list" where
  "unique_best [] unique_results = unique_results"
| "unique_best ((img_path, similarity) # rest) unique_results =
     (case map_of unique_results img_path of
        None \<Rightarrow> unique_best rest (AList.update img_path similarity unique_results)
      | Some old \<Rightarrow>
          if similarity > old
          then unique_best rest (AList.update img_path similarity unique_results)
          else unique_best rest unique_results)"

text \<open>
  The merge step, lines 167 to 186: the values of \<^verbatim>\<open>results_per_index\<close> are concatenated,
  duplicates are removed, the list is sorted and limited.
\<close>

definition merge_results :: "result list list \<Rightarrow> int \<Rightarrow> result list" where
  "merge_results per_index max_results =
     limit_results max_results (sort_by_similarity (unique_best (concat per_index) []))"

text \<open>
  One thread per index path calls \<^verbatim>\<open>search_in_index\<close> with the caller's
  \<^verbatim>\<open>max_results\<close> and stores the list under its path in \<^verbatim>\<open>results_per_index\<close>; a thread
  whose search raises stores nothing. \<open>run_threads\<close> runs the searches of a list of paths one
  after the other and makes the assignments in that order.
\<close>

fun run_threads ::
  "search_env \<Rightarrow> feature_value \<Rightarrow> score \<Rightarrow> int \<Rightarrow> path list \<Rightarrow>
   (path \<times> result list) list \<times> processor \<Rightarrow> (path \<times> result list) list \<times> processor" where
  "run_threads env query_features threshold max_results [] acc = acc"
| "run_threads env query_features threshold max_results (index_path # rest)
     (results_per_index, proc) =
     (case search_in_index env proc query_features index_path threshold max_results of
        (Inr results, proc1) \<Rightarrow>
          run_threads env query_features threshold max_results rest
            (AList.update index_path results results_per_index, proc1)
      | (Inl e, proc1) \<Rightarrow>
          run_threads env query_features threshold max_results rest (results_per_index, proc1))"

text \<open>
  \<^verbatim>\<open>search_in_multiple_indexes\<close>. The threads of \<^verbatim>\<open>index_paths\<close> run concurrently, and each
  one assigns to \<^verbatim>\<open>results_per_index\<close> when its search is done: the order of the keys of
  that dictionary, and so the order in which the lists are merged, is the order in which the
  threads complete, which the scheduler decides. That order is the parameter \<open>completion\<close>
  of a run, a permutation of \<^verbatim>\<open>index_paths\<close>; the searches are run in that order.
\<close>

definition search_in_multiple_indexes ::
  "search_env \<Rightarrow> processor \<Rightarrow> feature_value \<Rightarrow> path list \<Rightarrow> path list \<Rightarrow> score \<Rightarrow> int \<Rightarrow>
   result list \<times> processor" where
  "search_in_multiple_indexes env proc query_features index_paths completion
     similarity_threshold max_results =
     (let (results_per_index, proc1) =
            run_threads env query_features similarity_threshold max_results completion
              ([], proc)
      in (merge_results (map snd results_per_index) max_results, proc1))"

text \<open>
  The list that a search of one index returns on a given processor, for a given limit (the
  empty list if the search raises).
\<close>

definition index_results ::
  "search_env \<Rightarrow> processor \<Rightarrow> feature_value \<Rightarrow> path \<Rightarrow> score \<Rightarrow> int \<Rightarrow> result list" where
  "index_results env proc query_features index_path threshold max_results =
     (case fst (search_in_index env proc query_features index_path threshold max_results) of
        Inr results \<Rightarrow> results
      | Inl e \<Rightarrow> [])"

text \<open>
  The multi-index search in the words of the specification: every index is searched with an
  unbounded limit (\<open>0\<close>), the lists are merged (here in the order \<open>completion\<close>), and the
  limit is applied once, after the merge.
\<close>

definition spec_search_many ::
  "search_env \<Rightarrow> processor \<Rightarrow> feature_value \<Rightarrow> path list \<Rightarrow> score \<Rightarrow> int \<Rightarrow> result list" where
  "spec_search_many env proc query_features completion threshold max_results =
     merge_results
       (map (\<lambda>index_path. index_results env proc query_features index_path threshold 0)
          completion)
       max_results"

text \<open>
  The entries of an index that qualify for a query: the image file exists, the shapes do not
  differ, the comparison returns a similarity, and the similarity reaches the threshold.
\<close>

definition qualifying_entries ::
  "extractor \<Rightarrow> (path \<Rightarrow> bool) \<Rightarrow> feature_value \<Rightarrow> score \<Rightarrow> (path \<times> feature_value) list \<Rightarrow>
   result list" where
  "qualifying_entries ext ex query_features threshold entries =
     List.map_filter
       (\<lambda>(img_path, feats).
          if ex img_path \<and> \<not> shape_mismatch query_features (flatten feats) then
            (case compare_features ext query_features (flatten feats) of
               Some similarity \<Rightarrow>
                 if similarity \<ge> threshold then Some (img_path, similarity) else None
             | None \<Rightarrow> None)
          else None)
       entries"

section \<open>Stop requests\<close>

text \<open>
  A worker thread has the flags \<^verbatim>\<open>running\<close> and \<^verbatim>\<open>cancelled\<close>, which \<^verbatim>\<open>stop\<close> sets
  together under the mutex and which the loop reads under the mutex before each file. The
  other thread's call of \<^verbatim>\<open>stop\<close> is a parameter of a run: \<open>Some k\<close> when the call comes
  after \<open>k\<close> polls of the flags, so that the poll before the file of index \<open>k\<close> (from 0) is
  the first to see it, \<open>None\<close> when \<^verbatim>\<open>stop\<close> is never called.
\<close>

record worker_flags =
  running :: bool
  cancelled :: bool

definition initial_flags :: worker_flags where
  "initial_flags = \<lparr>running = True, cancelled = False\<rparr>"

definition stop :: "worker_flags \<Rightarrow> worker_flags" where
  "stop fl = fl\<lparr>running := False, cancelled := True\<rparr>"

definition flags_at :: "nat option \<Rightarrow> nat \<Rightarrow> worker_flags" where
  "flags_at stop_request i =
     (case stop_request of
        None \<Rightarrow> initial_flags
      | Some k \<Rightarrow> if k \<le> i then stop initial_flags else initial_flags)"

section \<open>Search without an index: \<^verbatim>\<open>SearchWorker\<close>\<close>

datatype search_error = QueryFeaturesFailed | SearchException

datatype search_event =
    ProgressUpdate int
  | ResultReady "result list"
  | ErrorOccurred search_error
  | SearchCancelled

text \<open>
  The loop over the image files, \<open>i\<close> being the index of \<^verbatim>\<open>enumerate\<close>. The accumulator is
  the list \<^verbatim>\<open>results\<close> and the signals emitted so far. A stop request ends the loop with
  \<^verbatim>\<open>break\<close>. The progress \<^verbatim>\<open>int(100 * i / total_files)\<close> truncates a quotient that is not
  negative, which is the integer division. An exception in the body is caught and the file
  is skipped.
\<close>

fun scan_files ::
  "extractor \<Rightarrow> feature_value \<Rightarrow> score \<Rightarrow> nat \<Rightarrow> nat option \<Rightarrow> nat \<Rightarrow> path list \<Rightarrow>
   result list \<times> search_event list \<Rightarrow> result list \<times> search_event list" where
  "scan_files ext query_features threshold total_files stop_request i [] acc = acc"
| "scan_files ext query_features threshold total_files stop_request i (img_path # rest)
     (results, events) =
     (if \<not> running (flags_at stop_request i) then
        (if cancelled (flags_at stop_request i)
         then (results, events @ [SearchCancelled])
         else (results, events))
      else
        (let events1 = events @ [ProgressUpdate (int (100 * i) div int total_files)] in
         case extract_features ext img_path of
           Features current_features \<Rightarrow>
             (case py_len current_features of
                None \<Rightarrow>
                  scan_files ext query_features threshold total_files stop_request (Suc i) rest
                    (results, events1)
              | Some n \<Rightarrow>
                  if n > 0 then
                    (case compare_features ext query_features current_features of
                       None \<Rightarrow>
                         scan_files ext query_features threshold total_files stop_request
                           (Suc i) rest (results, events1)
                     | Some similarity \<Rightarrow>
                         if similarity \<ge> threshold then
                           scan_files ext query_features threshold total_files stop_request
                             (Suc i) rest (results @ [(img_path, similarity)], events1)
                         else
                           scan_files ext query_features threshold total_files stop_request
                             (Suc i) rest (results, events1))
                  else
                    scan_files ext query_features threshold total_files stop_request (Suc i)
                      rest (results, events1))
         | _ \<Rightarrow>
             scan_files ext query_features threshold total_files stop_request (Suc i) rest
               (results, events1)))"

text \<open>
  \<^verbatim>\<open>SearchWorker.run\<close>, as the list of the signals it emits. \<open>image_files\<close> is the list that
  the twelve \<^verbatim>\<open>glob\<close> calls produce for the search folder.
\<close>

definition SearchWorker_run ::
  "extractor \<Rightarrow> path \<Rightarrow> path list \<Rightarrow> score \<Rightarrow> int \<Rightarrow> nat option \<Rightarrow> search_event list" where
  "SearchWorker_run ext query_image_path image_files similarity_threshold max_results
     stop_request =
     (case extract_features ext query_image_path of
        ExtractRaises \<Rightarrow> [ErrorOccurred SearchException]
      | NoFeatures \<Rightarrow> [ErrorOccurred QueryFeaturesFailed]
      | Features query_features \<Rightarrow>
          (case py_len query_features of
             None \<Rightarrow> [ErrorOccurred SearchException]
           | Some n \<Rightarrow>
               if n = 0 then [ErrorOccurred QueryFeaturesFailed]
               else if length image_files = 0 then [ResultReady [], ProgressUpdate 100]
               else
                 (let (results, events) =
                        scan_files ext query_features similarity_threshold
                          (length image_files) stop_request 0 image_files ([], [])
                  in events @
                     [ResultReady (limit_results max_results (sort_by_similarity results)),
                      ProgressUpdate 100])))"

text \<open>
  The files of a scan that qualify: features are extracted and not empty, the comparison
  returns a similarity, and the similarity reaches the threshold.
\<close>

definition qualifying_files ::
  "extractor \<Rightarrow> feature_value \<Rightarrow> score \<Rightarrow> path list \<Rightarrow> result list" where
  "qualifying_files ext query_features threshold image_files =
     List.map_filter
       (\<lambda>img_path.
          case extract_features ext img_path of
            Features current_features \<Rightarrow>
              (case py_len current_features of
                 Some (Suc n) \<Rightarrow>
                   (case compare_features ext query_features current_features of
                      Some similarity \<Rightarrow>
                        if similarity \<ge> threshold then Some (img_path, similarity) else None
                    | None \<Rightarrow> None)
               | _ \<Rightarrow> None)
          | _ \<Rightarrow> None)
       image_files"


section \<open>Indexing: \<^verbatim>\<open>FeatureIndexer\<close> and \<^verbatim>\<open>IndexWorker\<close>\<close>

datatype index_failure = NoImagesFound | IndexingCancelled | IndexingException

datatype index_event =
    IndexProgress int
  | IndexCompleted path
  | IndexFailed index_failure
  | IndexCancelled

text \<open>
  The loop of \<^verbatim>\<open>FeatureIndexer.run\<close>. A stop request leaves the method with \<^verbatim>\<open>return\<close>:
  the first component is then \<open>None\<close>, and it is the dictionary \<^verbatim>\<open>features_dict\<close> when the
  loop ends. An exception of the extractor is caught and the file is skipped.
\<close>

fun index_files ::
  "extractor \<Rightarrow> nat \<Rightarrow> nat option \<Rightarrow> nat \<Rightarrow> path list \<Rightarrow>
   (path \<times> feature_value) list \<times> index_event list \<Rightarrow>
   (path \<times> feature_value) list option \<times> index_event list" where
  "index_files ext total_files stop_request i [] (features_dict, events) =
     (Some features_dict, events)"
| "index_files ext total_files stop_request i (img_path # rest) (features_dict, events) =
     (if \<not> running (flags_at stop_request i) then
        (if cancelled (flags_at stop_request i)
         then (None, events @ [IndexFailed IndexingCancelled])
         else (None, events))
      else
        (let features_dict1 =
               (case extract_features ext img_path of
                  Features feats \<Rightarrow> AList.update img_path feats features_dict
                | _ \<Rightarrow> features_dict)
         in index_files ext total_files stop_request (Suc i) rest
              (features_dict1,
               events @ [IndexProgress (int (100 * (i + 1)) div int total_files)])))"

text \<open>
  \<^verbatim>\<open>FeatureIndexer.run\<close>: the signals emitted and the storage after the run. \<open>writable\<close>
  tells whether the index file can be opened for writing, \<open>now\<close> is \<^verbatim>\<open>time.time()\<close>.
\<close>

definition FeatureIndexer_run ::
  "extractor \<Rightarrow> path list \<Rightarrow> path \<Rightarrow> rat \<Rightarrow> (path \<Rightarrow> bool) \<Rightarrow> nat option \<Rightarrow>
   (path \<Rightarrow> index_data option) \<Rightarrow> index_event list \<times> (path \<Rightarrow> index_data option)" where
  "FeatureIndexer_run ext image_files output_path now writable stop_request store =
     (let total_files = length image_files in
      if total_files = 0 then ([IndexFailed NoImagesFound], store)
      else
        (case index_files ext total_files stop_request 0 image_files ([], []) of
           (None, events) \<Rightarrow> (events, store)
         | (Some features_dict, events) \<Rightarrow>
             if writable output_path then
               (events @ [IndexCompleted output_path],
                store(output_path \<mapsto>
                  \<lparr>extractor_name = name ext, features = features_dict, timestamp = now\<rparr>))
             else (events @ [IndexFailed IndexingException], store)))"

text \<open>
  \<^verbatim>\<open>IndexWorker.stop\<close> sets the worker's own flag \<^verbatim>\<open>cancelled\<close> and calls the indexer's
  \<^verbatim>\<open>stop\<close> when the indexer exists. A stop request to the worker is: never, before the
  indexer was created (the indexer's flags stay as they are), or after \<open>k\<close> polls of the
  indexer's flags.
\<close>

datatype worker_stop = NeverStopped | StoppedBeforeIndexer | StoppedAfter nat

fun indexer_stop :: "worker_stop \<Rightarrow> nat option" where
  "indexer_stop NeverStopped = None"
| "indexer_stop StoppedBeforeIndexer = None"
| "indexer_stop (StoppedAfter k) = Some k"

text \<open>The worker's flag \<^verbatim>\<open>cancelled\<close> when the indexer has polled its flags \<open>t\<close> times.\<close>

fun worker_cancelled :: "worker_stop \<Rightarrow> nat \<Rightarrow> bool" where
  "worker_cancelled NeverStopped t = False"
| "worker_cancelled StoppedBeforeIndexer t = True"
| "worker_cancelled (StoppedAfter k) t = (k \<le> t)"

definition handle_index_completed :: "bool \<Rightarrow> path \<Rightarrow> index_event" where
  "handle_index_completed worker_is_cancelled index_path =
     (if worker_is_cancelled then IndexCancelled else IndexCompleted index_path)"

definition handle_index_failed :: "bool \<Rightarrow> index_failure \<Rightarrow> index_event" where
  "handle_index_failed worker_is_cancelled error_message =
     (if worker_is_cancelled then IndexCancelled else IndexFailed error_message)"

text \<open>
  The connections made in \<^verbatim>\<open>IndexWorker.run\<close>: a progress signal of the indexer is emitted
  again as it is, the two final signals go through the handlers. \<open>t\<close> counts the files
  processed so far, one poll and one progress signal each.
\<close>

fun relay :: "worker_stop \<Rightarrow> nat \<Rightarrow> index_event list \<Rightarrow> index_event list" where
  "relay w t [] = []"
| "relay w t (IndexProgress p # events) = IndexProgress p # relay w (Suc t) events"
| "relay w t (IndexCompleted index_path # events) =
     handle_index_completed (worker_cancelled w t) index_path # relay w t events"
| "relay w t (IndexFailed error_message # events) =
     handle_index_failed (worker_cancelled w t) error_message # relay w t events"
| "relay w t (IndexCancelled # events) = IndexCancelled # relay w t events"

definition IndexWorker_run ::
  "extractor \<Rightarrow> path list \<Rightarrow> path \<Rightarrow> rat \<Rightarrow> (path \<Rightarrow> bool) \<Rightarrow> worker_stop \<Rightarrow>
   (path \<Rightarrow> index_data option) \<Rightarrow> index_event list \<times> (path \<Rightarrow> index_data option)" where
  "IndexWorker_run ext image_files output_path now writable w store =
     (let (events, store1) =
            FeatureIndexer_run ext image_files output_path now writable (indexer_stop w) store
      in (relay w 0 events, store1))"

text \<open>
  The progress value in the words of the specification:
  \<^verbatim>\<open>round(100 * processed_count / total_count)\<close>.
\<close>

definition spec_progress :: "nat \<Rightarrow> nat \<Rightarrow> int" where
  "spec_progress processed_count total_count =
     round (100 * rat_of_nat processed_count / rat_of_nat total_count)"

text \<open>The progress signals among the signals of an indexing run.\<close>

fun progress_values :: "index_event list \<Rightarrow> int list" where
  "progress_values [] = []"
| "progress_values (IndexProgress p # events) = p # progress_values events"
| "progress_values (e # events) = progress_values events"

section \<open>The index dialog: \<^verbatim>\<open>IndexDialog.start_indexing\<close>\<close>

text \<open>
  The second tab of the dialog offers two radio buttons for an existing index, labelled
  "update the selected index (add new images)" and "recreate the index (full reindexing)".
\<close>

datatype index_option = UpdateExisting | RecreateIndex

record existing_index =
  ix_path :: path
  ix_name :: string
  ix_extractor :: extractor

record index_dialog =
  tab_index :: nat
  existing_indexes :: "existing_index list"
  current_row :: nat
  checked_option :: index_option
  combo_extractor :: extractor
  dialog_output_path :: "path option"
  default_output_path :: path
  reply_yes :: bool

datatype dialog_error = IndexError

text \<open>
  \<^verbatim>\<open>start_indexing\<close> chooses the extractor and the output path and starts an
  \<^verbatim>\<open>IndexWorker\<close> on the folder. The result is \<open>Inr None\<close> when the method returns without
  starting the worker (the user declined to recreate the index), and the outcome of the
  worker's run otherwise.
\<close>

definition start_indexing ::
  "index_dialog \<Rightarrow> path list \<Rightarrow> rat \<Rightarrow> (path \<Rightarrow> bool) \<Rightarrow> worker_stop \<Rightarrow>
   (path \<Rightarrow> index_data option) \<Rightarrow>
   dialog_error + (index_event list \<times> (path \<Rightarrow> index_data option)) option" where
  "start_indexing dlg image_files now writable w store =
     (if tab_index dlg = 0 \<or> existing_indexes dlg = [] then
        (let selected_extractor = combo_extractor dlg;
             output_path =
               (case dialog_output_path dlg of
                  None \<Rightarrow> default_output_path dlg
                | Some p \<Rightarrow> if p = [] then default_output_path dlg else p)
         in Inr (Some (IndexWorker_run selected_extractor image_files output_path now
                         writable w store)))
      else if current_row dlg \<ge> length (existing_indexes dlg) then Inl IndexError
      else
        (let selected_index = existing_indexes dlg ! current_row dlg;
             selected_extractor = ix_extractor selected_index;
             output_path = ix_path selected_index
         in if checked_option dlg = RecreateIndex \<and> \<not> reply_yes dlg then Inr None
            else Inr (Some (IndexWorker_run selected_extractor image_files output_path now
                              writable w store))))"

section \<open>A small extractor for the examples\<close>

text \<open>
  The feature of an image is a one-element array; the similarity of a stored feature to any
  query array is its element divided by one hundred. The comparison raises on anything else.
\<close>

definition demo_compare :: "feature_value \<Rightarrow> feature_value \<Rightarrow> score option" where
  "demo_compare a b =
     (case (a, b) of
        (NdArray ds1 es1, NdArray ds2 [n]) \<Rightarrow> Some (rat_of_int n / 100)
      | _ \<Rightarrow> None)"

definition demo_extract :: "path \<Rightarrow> extraction" where
  "demo_extract p =
     (if p = ''query.jpg'' then Features (NdArray [1] [100])
      else if p = ''a.jpg'' then Features (NdArray [1] [90])
      else if p = ''b.jpg'' then Features (NdArray [1] [40])
      else if p = ''c.jpg'' then Features (NdArray [1] [95])
      else NoFeatures)"

definition demo_extractor :: extractor where
  "demo_extractor =
     \<lparr>name = ''demo'', extract_features = demo_extract, compare_features = demo_compare\<rparr>"

definition demo_index :: "(path \<times> int) list \<Rightarrow> index_data" where
  "demo_index entries =
     \<lparr>extractor_name = ''demo'',
      features = map (\<lambda>(p, n). (p, NdArray [1] [n])) entries,
      timestamp = 0\<rparr>"

text \<open>An environment with the given index files, in which every image file exists.\<close>

definition demo_env :: "(path \<times> index_data) list \<Rightarrow> search_env" where
  "demo_env index_files_on_disk =
     \<lparr>storage = map_of index_files_on_disk,
      path_exists = (\<lambda>p. True),
      available_extractors = [demo_extractor]\<rparr>"

text \<open>
  An index with an entry of another shape than the query's (two rows of one element), and
  an index built by an extractor that is not available.
\<close>

definition shapes_index :: index_data where
  "shapes_index =
     \<lparr>extractor_name = ''demo'',
      features = [(''a.jpg'', NdArray [1] [90]), (''m.jpg'', NdArray [2, 1] [90, 90])],
      timestamp = 0\<rparr>"

definition foreign_index :: index_data where
  "foreign_index =
     \<lparr>extractor_name = ''unknown'',
      features = [(''a.jpg'', NdArray [1] [90])],
      timestamp = 0\<rparr>"

text \<open>
  The dialog on its second tab, with one existing index \<open>idx\<close> selected and the given radio
  button checked; and three index files for a multi-index search.
\<close>

definition demo_dialog :: "index_option \<Rightarrow> index_dialog" where
  "demo_dialog opt =
     \<lparr>tab_index = 1,
      existing_indexes =
        [\<lparr>ix_path = ''idx'', ix_name = ''demo'', ix_extractor = demo_extractor\<rparr>],
      current_row = 0,
      checked_option = opt,
      combo_extractor = demo_extractor,
      dialog_output_path = None,
      default_output_path = ''new.pkl'',
      reply_yes = False\<rparr>"

definition three_indexes :: search_env where
  "three_indexes =
     demo_env
       [(''idx1'', demo_index [(''X'', 60), (''Y'', 60), (''B'', 50)]),
        (''idx2'', demo_index [(''C'', 90)]),
        (''idx3'', demo_index [(''B'', 90)])]"

section \<open>Notions used in the statements\<close>

text \<open>
  The record that a search of \<open>index_path\<close> works on: the one in \<^verbatim>\<open>self.indexes\<close> when
  the path is a key of it, else the one that loading the file gives.
\<close>

definition index_record :: "search_env \<Rightarrow> processor \<Rightarrow> path \<Rightarrow> index_data option" where
  "index_record env proc index_path =
     (case map_of (indexes proc) index_path of
        Some data \<Rightarrow> Some data
      | None \<Rightarrow> storage env index_path)"

text \<open>
  The paths of the entries that reach the comparison: the image file exists and the shapes
  do not differ.
\<close>

definition compared_entries ::
  "(path \<Rightarrow> bool) \<Rightarrow> feature_value \<Rightarrow> (path \<times> feature_value) list \<Rightarrow> path list" where
  "compared_entries ex query_features entries =
     map fst
       (filter (\<lambda>(img_path, feats). ex img_path \<and> \<not> shape_mismatch query_features (flatten feats))
          entries)"

text \<open>
  The limit semantics in the words of the specification: with the limit 0 the output holds
  all qualifying results; with a limit \<open>N > 0\<close> it holds at most \<open>N\<close> of them (all of them
  when there are no more than \<open>N\<close>), and no qualifying result that is left out has a greater
  similarity than one that is returned. In both cases the output is in descending order.
\<close>

definition limit_semantics :: "int \<Rightarrow> result list \<Rightarrow> result list \<Rightarrow> bool" where
  "limit_semantics N qualifying out \<longleftrightarrow>
     sorted_wrt (\<lambda>a b. snd a \<ge> snd b) out \<and>
     (N = 0 \<longrightarrow> mset out = mset qualifying) \<and>
     (N > 0 \<longrightarrow>
        length out \<le> nat N \<and>
        length out = min (nat N) (length qualifying) \<and>
        mset out \<subseteq># mset qualifying \<and>
        (\<forall>r \<in> set out. \<forall>q \<in># mset qualifying - mset out. snd q \<le> snd r))"

section \<open>Properties of sorting, limiting and merging\<close>

lemma sorted_sort_by_similarity:
  "sorted_wrt (\<lambda>a b. snd a \<ge> snd b) (sort_by_similarity rs)"
proof -
  have "sorted (map (\<lambda>x. - snd x) (sort_by_similarity rs))"
    unfolding sort_by_similarity_def by (rule sorted_sort_key)
  then show ?thesis by (simp add: sorted_map)
qed

lemma set_sort_by_similarity: "set (sort_by_similarity rs) = set rs"
  by (simp add: sort_by_similarity_def)

lemma length_sort_by_similarity: "length (sort_by_similarity rs) = length rs"
  by (simp add: sort_by_similarity_def)

lemma mset_sort_by_similarity: "mset (sort_by_similarity rs) = mset rs"
  by (simp add: sort_by_similarity_def)

lemma distinct_paths_sort_by_similarity:
  "distinct (map fst (sort_by_similarity rs)) = distinct (map fst rs)"
  by (simp add: sort_by_similarity_def distinct_map)

lemma set_limit_results: "set (limit_results n rs) \<subseteq> set rs"
  by (auto simp: limit_results_def dest: in_set_takeD)

lemma sorted_limit_results:
  "sorted_wrt P rs \<Longrightarrow> sorted_wrt P (limit_results n rs)"
  by (simp add: limit_results_def sorted_wrt_take)

lemma distinct_paths_limit_results:
  "distinct (map fst rs) \<Longrightarrow> distinct (map fst (limit_results n rs))"
  by (simp add: limit_results_def take_map[symmetric] distinct_take)

lemma limit_results_unbounded: "n \<le> 0 \<Longrightarrow> limit_results n rs = rs"
  by (simp add: limit_results_def)

lemma unique_best_distinct:
  "distinct (map fst u) \<Longrightarrow> distinct (map fst (unique_best xs u))"
  by (induction xs u rule: unique_best.induct) (auto simp: distinct_update split: option.splits)

lemma unique_best_source:
  "map_of (unique_best xs u) p = Some s \<Longrightarrow> map_of u p = Some s \<or> (p, s) \<in> set xs"
  by (induction xs u rule: unique_best.induct)
     (auto simp: update_conv' split: option.splits if_splits)

lemma unique_best_keeps:
  "map_of u p = Some s0 \<Longrightarrow> \<exists>s. map_of (unique_best xs u) p = Some s \<and> s0 \<le> s"
proof (induction xs u arbitrary: s0 rule: unique_best.induct)
  case (1 u)
  then show ?case by simp
next
  case (2 q t rest u)
  show ?case
  proof (cases "map_of u q")
    case None
    with 2 show ?thesis by (cases "p = q") (auto simp: update_conv')
  next
    case (Some old)
    show ?thesis
    proof (cases "t > old")
      case True
      show ?thesis
      proof (cases "p = q")
        case True
        have "map_of (AList.update q t u) p = Some t"
          using True by (simp add: update_conv')
        from "2.IH"(2)[OF Some \<open>t > old\<close> this]
        obtain s where "map_of (unique_best rest (AList.update q t u)) p = Some s" "t \<le> s"
          by blast
        moreover have "s0 = old" using "2.prems" Some True by simp
        ultimately show ?thesis using \<open>t > old\<close> Some by auto
      next
        case False
        with \<open>t > old\<close> Some 2 show ?thesis by (auto simp: update_conv')
      qed
    next
      case False
      with Some 2 show ?thesis by auto
    qed
  qed
qed

lemma unique_best_covers:
  "(p, s') \<in> set xs \<Longrightarrow> \<exists>s. map_of (unique_best xs u) p = Some s \<and> s' \<le> s"
proof (induction xs u rule: unique_best.induct)
  case (1 u)
  then show ?case by simp
next
  case (2 q t rest u)
  show ?case
  proof (cases "(p, s') = (q, t)")
    case True
    then have eq: "p = q" "s' = t" by simp_all
    show ?thesis
    proof (cases "map_of u q")
      case None
      have "map_of (AList.update q t u) p = Some t" using eq by (simp add: update_conv')
      from unique_best_keeps[OF this, of rest] show ?thesis using None eq by simp
    next
      case (Some old)
      show ?thesis
      proof (cases "t > old")
        case True
        have "map_of (AList.update q t u) p = Some t" using eq by (simp add: update_conv')
        from unique_best_keeps[OF this, of rest] show ?thesis using Some True eq by simp
      next
        case False
        have "map_of u p = Some old" using Some eq by simp
        from unique_best_keeps[OF this, of rest] show ?thesis using Some False eq by auto
      qed
    qed
  next
    case False
    with "2.prems" have "(p, s') \<in> set rest" by auto
    with 2 show ?thesis by (auto split: option.splits)
  qed
qed

lemma unique_best_member:
  assumes "(p, s) \<in> set (unique_best xs [])"
  shows "(p, s) \<in> set xs \<and> (\<forall>s'. (p, s') \<in> set xs \<longrightarrow> s' \<le> s)"
proof -
  have d: "distinct (map fst (unique_best xs []))" by (simp add: unique_best_distinct)
  with assms have m: "map_of (unique_best xs []) p = Some s" by simp
  from unique_best_source[OF m] have "(p, s) \<in> set xs" by simp
  moreover have "s' \<le> s" if "(p, s') \<in> set xs" for s'
    using unique_best_covers[OF that, of "[]"] m by auto
  ultimately show ?thesis by blast
qed

lemma unique_best_paths: "fst ` set (unique_best xs []) = fst ` set xs"
proof
  show "fst ` set (unique_best xs []) \<subseteq> fst ` set xs"
    using unique_best_member by force
  show "fst ` set xs \<subseteq> fst ` set (unique_best xs [])"
  proof
    fix p assume "p \<in> fst ` set xs"
    then obtain s' where "(p, s') \<in> set xs" by auto
    from unique_best_covers[OF this, of "[]"]
    obtain s where "map_of (unique_best xs []) p = Some s" by blast
    then have "(p, s) \<in> set (unique_best xs [])" by (rule map_of_SomeD)
    then show "p \<in> fst ` set (unique_best xs [])" by force
  qed
qed

lemma merge_results_distinct: "distinct (map fst (merge_results per_index max_results))"
  unfolding merge_results_def
  by (intro distinct_paths_limit_results)
     (simp add: distinct_paths_sort_by_similarity unique_best_distinct)

lemma merge_results_best:
  assumes "(p, s) \<in> set (merge_results per_index max_results)"
  shows "(p, s) \<in> set (concat per_index) \<and>
         (\<forall>s'. (p, s') \<in> set (concat per_index) \<longrightarrow> s' \<le> s)"
proof (rule unique_best_member)
  show "(p, s) \<in> set (unique_best (concat per_index) [])"
    using assms unfolding merge_results_def
    using set_limit_results set_sort_by_similarity by blast
qed

lemma merge_results_sorted:
  "sorted_wrt (\<lambda>a b. snd a \<ge> snd b) (merge_results per_index max_results)"
  unfolding merge_results_def
  by (intro sorted_limit_results sorted_sort_by_similarity)

lemma merge_results_all_paths:
  "max_results \<le> 0 \<Longrightarrow>
   fst ` set (merge_results per_index max_results) = fst ` set (concat per_index)"
  by (simp add: merge_results_def limit_results_unbounded set_sort_by_similarity
      unique_best_paths)

section \<open>The merge step of the multi-index search\<close>

text \<open>
  C6. Whatever per-index result lists enter the merge step, and whatever the limit: no path
  occurs twice in the output; every output pair is one of the input pairs and carries the
  greatest similarity that its path has in any of the lists; the output is sorted by
  descending similarity; and with no limit every input path is in the output. The list
  \<open>[(A, 0.3), (B, 0.9), (A, 0.7)]\<close> merges to \<open>[(B, 0.9), (A, 0.7)]\<close>, and two index files
  that both hold the path \<open>P\<close>, with the similarities 0.6 and 0.9 to the query, give \<open>P\<close>
  once, with 0.9, for the threshold 0.5, in whichever order the two searches complete.
\<close>

theorem merge_step_dedup_max_sorted:
  "distinct (map fst (merge_results per_index max_results)) \<and>
   (\<forall>(p, s) \<in> set (merge_results per_index max_results).
       (p, s) \<in> set (concat per_index) \<and>
       (\<forall>s'. (p, s') \<in> set (concat per_index) \<longrightarrow> s' \<le> s)) \<and>
   sorted_wrt (\<lambda>a b. snd a \<ge> snd b) (merge_results per_index max_results) \<and>
   (max_results \<le> 0 \<longrightarrow>
      fst ` set (merge_results per_index max_results) = fst ` set (concat per_index)) \<and>
   merge_results [[(''A'', 3 / 10), (''B'', 9 / 10), (''A'', 7 / 10)]] 0 =
     [(''B'', 9 / 10), (''A'', 7 / 10)] \<and>
   fst (search_in_multiple_indexes
          (demo_env [(''idx1'', demo_index [(''P'', 60)]), (''idx2'', demo_index [(''P'', 90)])])
          new_processor (NdArray [1] [100]) [''idx1'', ''idx2''] [''idx1'', ''idx2''] (1 / 2) 0) =
     [(''P'', 9 / 10)] \<and>
   fst (search_in_multiple_indexes
          (demo_env [(''idx1'', demo_index [(''P'', 60)]), (''idx2'', demo_index [(''P'', 90)])])
          new_processor (NdArray [1] [100]) [''idx1'', ''idx2''] [''idx2'', ''idx1''] (1 / 2) 0) =
     [(''P'', 9 / 10)]"
proof (intro conjI)
  show "distinct (map fst (merge_results per_index max_results))"
    by (rule merge_results_distinct)
  show "\<forall>(p, s) \<in> set (merge_results per_index max_results).
       (p, s) \<in> set (concat per_index) \<and>
       (\<forall>s'. (p, s') \<in> set (concat per_index) \<longrightarrow> s' \<le> s)"
    using merge_results_best by blast
  show "sorted_wrt (\<lambda>a b. snd a \<ge> snd b) (merge_results per_index max_results)"
    by (rule merge_results_sorted)
  show "max_results \<le> 0 \<longrightarrow>
      fst ` set (merge_results per_index max_results) = fst ` set (concat per_index)"
    using merge_results_all_paths by blast
  show "merge_results [[(''A'', 3 / 10), (''B'', 9 / 10), (''A'', 7 / 10)]] 0 =
     [(''B'', 9 / 10), (''A'', 7 / 10)]"
    by code_simp
  show "fst (search_in_multiple_indexes
          (demo_env [(''idx1'', demo_index [(''P'', 60)]), (''idx2'', demo_index [(''P'', 90)])])
          new_processor (NdArray [1] [100]) [''idx1'', ''idx2''] [''idx1'', ''idx2''] (1 / 2) 0) =
     [(''P'', 9 / 10)]"
    by code_simp
  show "fst (search_in_multiple_indexes
          (demo_env [(''idx1'', demo_index [(''P'', 60)]), (''idx2'', demo_index [(''P'', 90)])])
          new_processor (NdArray [1] [100]) [''idx1'', ''idx2''] [''idx2'', ''idx1''] (1 / 2) 0) =
     [(''P'', 9 / 10)]"
    by code_simp
qed

theorem merge_step_dedup_max_sorted_witness:
  "(''A'', 7 / 10) \<in> set (merge_results [[(''A'', 3 / 10)], [(''B'', 9 / 10), (''A'', 7 / 10)]] 0) \<and>
   (''A'', 7 / 10) \<in> set (concat [[(''A'', 3 / 10)], [(''B'', 9 / 10), (''A'', 7 / 10 :: rat)]]) \<and>
   (''A'', 3 / 10) \<in> set (concat [[(''A'', 3 / 10)], [(''B'', 9 / 10), (''A'', 7 / 10 :: rat)]]) \<and>
   (3 / 10 :: rat) \<le> 7 / 10 \<and>
   (0::int) \<le> 0 \<and>
   fst ` set (merge_results [[(''A'', 3 / 10)], [(''B'', 9 / 10), (''A'', 7 / 10)]] 0) =
   fst ` set (concat [[(''A'', 3 / 10)], [(''B'', 9 / 10), (''A'', 7 / 10 :: rat)]])"
proof -
  let ?X = "[[(''A'', 3 / 10)], [(''B'', 9 / 10), (''A'', 7 / 10 :: rat)]]"
  have "merge_results ?X 0 = [(''B'', 9 / 10), (''A'', 7 / 10)]"
    by code_simp
  then have mem: "(''A'', 7 / 10) \<in> set (merge_results ?X 0)"
    by simp
  have low: "(''A'', 3 / 10) \<in> set (concat ?X)"
    by simp
  note t = merge_step_dedup_max_sorted [of ?X 0]
  have best: "\<forall>(p, s) \<in> set (merge_results ?X 0).
       (p, s) \<in> set (concat ?X) \<and> (\<forall>s'. (p, s') \<in> set (concat ?X) \<longrightarrow> s' \<le> s)"
    using t by (elim conjE)
  have paths: "(0::int) \<le> 0 \<longrightarrow>
      fst ` set (merge_results ?X 0) = fst ` set (concat ?X)"
    using t by (elim conjE)
  have a: "(''A'', 7 / 10) \<in> set (concat ?X) \<and>
     (\<forall>s'. (''A'', s') \<in> set (concat ?X) \<longrightarrow> s' \<le> 7 / 10)"
    using bspec [OF best mem] unfolding prod.case .
  from paths have b: "fst ` set (merge_results ?X 0) = fst ` set (concat ?X)"
    by (rule mp) simp
  note a1 = conjunct1 [OF a] and a2 = mp [OF spec [OF conjunct2 [OF a]] low]
  show ?thesis by (intro conjI) (rule mem a1 a2 low order_refl b)+
qed

section \<open>Properties of the search in one index\<close>

lemma limit_sort_semantics:
  "limit_semantics N qualifying (limit_results N (sort_by_similarity qualifying))"
proof -
  let ?S = "sort_by_similarity qualifying"
  have sorted: "sorted_wrt (\<lambda>a b. snd a \<ge> snd b) ?S"
    by (rule sorted_sort_by_similarity)
  have ms: "mset ?S = mset qualifying" by (rule mset_sort_by_similarity)
  have len: "length ?S = length qualifying" by (rule length_sort_by_similarity)
  have top: "snd q \<le> snd r"
    if "r \<in> set (take n ?S)" "q \<in># mset qualifying - mset (take n ?S)" for n r q
  proof -
    have "mset qualifying = mset (take n ?S) + mset (drop n ?S)"
      by (metis ms append_take_drop_id mset_append)
    then have "mset qualifying - mset (take n ?S) = mset (drop n ?S)" by simp
    with that have q: "q \<in> set (drop n ?S)" by simp
    have "sorted_wrt (\<lambda>a b. snd a \<ge> snd b) (take n ?S @ drop n ?S)"
      using sorted by simp
    then show ?thesis using that(1) q unfolding sorted_wrt_append by blast
  qed
  have sub: "mset (take n ?S) \<subseteq># mset qualifying" for n
    by (metis ms append_take_drop_id mset_append mset_subset_eq_add_left)
  show ?thesis
    unfolding limit_semantics_def limit_results_def
    using sorted ms len top sub by (auto simp: sorted_wrt_take)
qed

lemma search_entries_eq:
  "search_entries ext ex q thr entries (results, calls) =
     (results @ qualifying_entries ext ex q thr entries,
      calls @ compared_entries ex q entries)"
proof (induction entries arbitrary: results calls)
  case Nil
  show ?case by (simp add: qualifying_entries_def compared_entries_def map_filter_simps)
next
  case (Cons e entries)
  obtain p f where e: "e = (p, f)" by (cases e)
  show ?case
    unfolding e
    by (simp add: Cons qualifying_entries_def compared_entries_def map_filter_simps
        split: option.splits)
qed

lemma search_in_index_result:
  "fst (search_in_index env proc q index_path thr N) =
     (case index_record env proc index_path of
        None \<Rightarrow> Inr []
      | Some data \<Rightarrow>
          (case find (\<lambda>ext. name ext = extractor_name data) (available_extractors env) of
             None \<Rightarrow> Inr []
           | Some ext \<Rightarrow>
               Inr (limit_results N (sort_by_similarity
                      (qualifying_entries ext (path_exists env) (flatten q) thr
                         (features data))))))"
  by (simp add: search_in_index_def index_record_def load_index_def search_entries_eq
      update_conv' split: option.splits)

lemma search_in_index_compared:
  "compared (snd (search_in_index env proc q index_path thr N)) =
     (case index_record env proc index_path of
        None \<Rightarrow> compared proc
      | Some data \<Rightarrow>
          (case find (\<lambda>ext. name ext = extractor_name data) (available_extractors env) of
             None \<Rightarrow> compared proc
           | Some ext \<Rightarrow>
               compared proc @
               compared_entries (path_exists env) (flatten q) (features data)))"
  by (simp add: search_in_index_def index_record_def load_index_def search_entries_eq
      update_conv' split: option.splits)

section \<open>Properties of the search without an index\<close>

lemma scan_files_not_stopped:
  "scan_files ext qf thr tot None i files (results, events) =
     (results @ qualifying_files ext qf thr files,
      events @ map (\<lambda>j. ProgressUpdate (int (100 * j) div int tot)) [i..<i + length files])"
proof (induction files arbitrary: i results events)
  case Nil
  show ?case by (simp add: qualifying_files_def map_filter_simps)
next
  case (Cons p files)
  have upt: "[i..<i + length (p # files)] = i # [Suc i..<Suc i + length files]"
    by (simp add: upt_rec)
  show ?case
    unfolding upt
    by (simp add: Cons flags_at_def initial_flags_def qualifying_files_def map_filter_simps
        split: extraction.splits option.splits nat.splits)
qed

lemma SearchWorker_run_not_stopped:
  assumes "extract_features ext query_path = Features qf" and "py_len qf = Some (Suc m)"
  shows "SearchWorker_run ext query_path files thr N None =
     map (\<lambda>j. ProgressUpdate (int (100 * j) div int (length files))) [0..<length files] @
     [ResultReady (limit_results N (sort_by_similarity (qualifying_files ext qf thr files))),
      ProgressUpdate 100]"
proof (cases files)
  case Nil
  then show ?thesis
    using assms
    by (simp add: SearchWorker_run_def qualifying_files_def map_filter_simps
        limit_results_def sort_by_similarity_def)
next
  case (Cons p ps)
  then show ?thesis
    using assms scan_files_not_stopped [of ext qf thr "length files" 0 files "[]" "[]"]
    by (simp add: SearchWorker_run_def)
qed

section \<open>The limit of a search\<close>

text \<open>
  C7. A search in one index that finds its record and its extractor returns, for the limit
  0, all qualifying entries, and for a limit \<open>N > 0\<close> at most \<open>N\<close> of them, none of which has
  a smaller similarity than a qualifying entry that is left out. A scan without an index
  that is not stopped, on a query whose features are extracted and not empty, delivers one
  result list, after the progress signals, with the same properties for the qualifying
  files.
\<close>

theorem search_limit_semantics:
  assumes "index_record env proc index_path = Some data"
    and "find (\<lambda>e. name e = extractor_name data) (available_extractors env) = Some ext"
    and "extract_features scan_ext query_path = Features qf"
    and "py_len qf = Some (Suc m)"
  shows "(\<exists>out. fst (search_in_index env proc q index_path thr N) = Inr out \<and>
            limit_semantics N
              (qualifying_entries ext (path_exists env) (flatten q) thr (features data)) out) \<and>
         (\<exists>out progress.
            SearchWorker_run scan_ext query_path files thr N None =
              map ProgressUpdate progress @ [ResultReady out, ProgressUpdate 100] \<and>
            limit_semantics N (qualifying_files scan_ext qf thr files) out)"
proof (intro conjI)
  show "\<exists>out. fst (search_in_index env proc q index_path thr N) = Inr out \<and>
            limit_semantics N
              (qualifying_entries ext (path_exists env) (flatten q) thr (features data)) out"
    using assms(1,2) by (simp add: search_in_index_result limit_sort_semantics)
  have "SearchWorker_run scan_ext query_path files thr N None =
     map ProgressUpdate (map (\<lambda>j. int (100 * j) div int (length files)) [0..<length files]) @
     [ResultReady (limit_results N (sort_by_similarity (qualifying_files scan_ext qf thr files))),
      ProgressUpdate 100]"
    using SearchWorker_run_not_stopped [OF assms(3,4)] by (simp add: comp_def)
  then show "\<exists>out progress.
            SearchWorker_run scan_ext query_path files thr N None =
              map ProgressUpdate progress @ [ResultReady out, ProgressUpdate 100] \<and>
            limit_semantics N (qualifying_files scan_ext qf thr files) out"
    using limit_sort_semantics by blast
qed

theorem search_limit_semantics_witness:
  "index_record
     (demo_env [(''idx'', demo_index [(''a.jpg'', 90), (''b.jpg'', 40), (''c.jpg'', 95)])])
     new_processor ''idx'' =
     Some (demo_index [(''a.jpg'', 90), (''b.jpg'', 40), (''c.jpg'', 95)]) \<and>
   find (\<lambda>e. name e =
           extractor_name (demo_index [(''a.jpg'', 90), (''b.jpg'', 40), (''c.jpg'', 95)]))
     (available_extractors
        (demo_env [(''idx'', demo_index [(''a.jpg'', 90), (''b.jpg'', 40), (''c.jpg'', 95)])])) =
     Some demo_extractor \<and>
   extract_features demo_extractor ''query.jpg'' = Features (NdArray [1] [100]) \<and>
   py_len (NdArray [1] [100]) = Some (Suc 0) \<and>
   (\<exists>out. fst (search_in_index
                 (demo_env [(''idx'', demo_index [(''a.jpg'', 90), (''b.jpg'', 40), (''c.jpg'', 95)])])
                 new_processor (NdArray [1] [100]) ''idx'' (1 / 2) 2) = Inr out \<and>
          limit_semantics 2
            (qualifying_entries demo_extractor
               (path_exists
                  (demo_env [(''idx'', demo_index [(''a.jpg'', 90), (''b.jpg'', 40), (''c.jpg'', 95)])]))
               (flatten (NdArray [1] [100])) (1 / 2)
               (features (demo_index [(''a.jpg'', 90), (''b.jpg'', 40), (''c.jpg'', 95)]))) out) \<and>
   (\<exists>out progress.
      SearchWorker_run demo_extractor ''query.jpg'' [''a.jpg'', ''b.jpg'', ''c.jpg''] (1 / 2) 2 None =
        map ProgressUpdate progress @ [ResultReady out, ProgressUpdate 100] \<and>
      limit_semantics 2
        (qualifying_files demo_extractor (NdArray [1] [100]) (1 / 2)
           [''a.jpg'', ''b.jpg'', ''c.jpg'']) out) \<and>
   SearchWorker_run demo_extractor ''query.jpg'' [''a.jpg'', ''b.jpg'', ''c.jpg''] (1 / 2) 2 None =
     [ProgressUpdate 0, ProgressUpdate 33, ProgressUpdate 66,
      ResultReady [(''c.jpg'', 95 / 100), (''a.jpg'', 90 / 100)], ProgressUpdate 100]"
proof -
  let ?D = "demo_index [(''a.jpg'', 90), (''b.jpg'', 40), (''c.jpg'', 95)]"
  let ?E = "demo_env [(''idx'', ?D)]"
  have h1: "index_record ?E new_processor ''idx'' = Some ?D"
    by (simp add: index_record_def demo_env_def new_processor_def)
  have h2: "find (\<lambda>e. name e = extractor_name ?D) (available_extractors ?E) =
            Some demo_extractor"
    by (simp add: demo_env_def demo_index_def demo_extractor_def)
  have h3: "extract_features demo_extractor ''query.jpg'' = Features (NdArray [1] [100])"
    by (simp add: demo_extractor_def demo_extract_def)
  have h4: "py_len (NdArray [1] [100]) = Some (Suc 0)"
    by simp
  note t = search_limit_semantics [OF h1 h2 h3 h4,
      of "NdArray [1] [100]" "1 / 2" 2 "[''a.jpg'', ''b.jpg'', ''c.jpg'']"]
  have ev: "SearchWorker_run demo_extractor ''query.jpg'' [''a.jpg'', ''b.jpg'', ''c.jpg'']
              (1 / 2) 2 None =
     [ProgressUpdate 0, ProgressUpdate 33, ProgressUpdate 66,
      ResultReady [(''c.jpg'', 95 / 100), (''a.jpg'', 90 / 100)], ProgressUpdate 100]"
    by code_simp
  show ?thesis
    by (intro conjI) (rule h1 h2 h3 h4 conjunct1 [OF t] conjunct2 [OF t] ev)+
qed

section \<open>Failures of a search in one index\<close>

lemma set_qualifying_entries_subset:
  "fst ` set (qualifying_entries ext ex q thr entries) \<subseteq> set (compared_entries ex q entries)"
  by (induction entries)
     (auto simp: qualifying_entries_def compared_entries_def map_filter_simps
       split: option.splits if_splits)

lemma mismatch_not_compared:
  assumes "distinct (map fst entries)" and "(p, f) \<in> set entries"
    and "shape_mismatch q (flatten f)"
  shows "p \<notin> set (compared_entries ex q entries)"
proof
  assume "p \<in> set (compared_entries ex q entries)"
  then obtain f' where f': "(p, f') \<in> set entries" "\<not> shape_mismatch q (flatten f')"
    by (auto simp: compared_entries_def)
  from assms(1) f'(1) assms(2) have "f' = f"
    by (rule eq_key_imp_eq_value)
  with f'(2) assms(3) show False by simp
qed

lemma shapes_differ_mismatch:
  "shape_of a = Some s1 \<Longrightarrow> shape_of b = Some s2 \<Longrightarrow> s1 \<noteq> s2 \<Longrightarrow> shape_mismatch a b"
  by (simp add: shape_mismatch_def)

text \<open>
  C10. A search in one index returns the empty list, and raises nothing, when the index is
  not in the cache and its file cannot be loaded, and when no available extractor has the
  name that the record carries; a search never raises. When record and extractor are found,
  the comparison is called for exactly the entries whose file exists and whose shape does
  not differ from the query's: an entry whose flattened shape differs from the flattened
  shape of the query is not handed to the comparison and is not in the result.
\<close>

theorem search_in_index_failures:
  "(map_of (indexes proc) index_path = None \<and> storage env index_path = None \<longrightarrow>
      fst (search_in_index env proc q index_path thr N) = Inr []) \<and>
   (\<forall>data. index_record env proc index_path = Some data \<and>
      find (\<lambda>e. name e = extractor_name data) (available_extractors env) = None \<longrightarrow>
      fst (search_in_index env proc q index_path thr N) = Inr []) \<and>
   (\<forall>e. fst (search_in_index env proc q index_path thr N) \<noteq> Inl e) \<and>
   (\<forall>data ext out. index_record env proc index_path = Some data \<and>
      find (\<lambda>e. name e = extractor_name data) (available_extractors env) = Some ext \<and>
      distinct (map fst (features data)) \<and>
      fst (search_in_index env proc q index_path thr N) = Inr out \<longrightarrow>
      (\<exists>calls. compared (snd (search_in_index env proc q index_path thr N)) =
                 compared proc @ calls \<and>
         fst ` set out \<subseteq> set calls \<and>
         (\<forall>(img_path, feats) \<in> set (features data).
            \<forall>s1 s2. shape_of (flatten q) = Some s1 \<and> shape_of (flatten feats) = Some s2 \<and>
              s1 \<noteq> s2 \<longrightarrow>
              img_path \<notin> set calls \<and> img_path \<notin> fst ` set out)))"
proof (intro conjI allI impI)
  assume "map_of (indexes proc) index_path = None \<and> storage env index_path = None"
  then show "fst (search_in_index env proc q index_path thr N) = Inr []"
    by (simp add: search_in_index_result index_record_def)
next
  fix data
  assume "index_record env proc index_path = Some data \<and>
      find (\<lambda>e. name e = extractor_name data) (available_extractors env) = None"
  then show "fst (search_in_index env proc q index_path thr N) = Inr []"
    by (simp add: search_in_index_result)
next
  fix e
  show "fst (search_in_index env proc q index_path thr N) \<noteq> Inl e"
    by (simp add: search_in_index_result split: option.splits)
next
  fix data ext out
  assume a: "index_record env proc index_path = Some data \<and>
      find (\<lambda>e. name e = extractor_name data) (available_extractors env) = Some ext \<and>
      distinct (map fst (features data)) \<and>
      fst (search_in_index env proc q index_path thr N) = Inr out"
  let ?calls = "compared_entries (path_exists env) (flatten q) (features data)"
  let ?Q = "qualifying_entries ext (path_exists env) (flatten q) thr (features data)"
  from a have rec: "index_record env proc index_path = Some data"
    and fnd: "find (\<lambda>e. name e = extractor_name data) (available_extractors env) = Some ext"
    and dist: "distinct (map fst (features data))"
    and res: "fst (search_in_index env proc q index_path thr N) = Inr out"
    by simp_all
  from res have out: "out = limit_results N (sort_by_similarity ?Q)"
    by (simp add: search_in_index_result rec fnd)
  have sub: "fst ` set out \<subseteq> set ?calls"
  proof -
    have "set out \<subseteq> set ?Q"
      unfolding out using set_limit_results set_sort_by_similarity by blast
    then show ?thesis using set_qualifying_entries_subset by fast
  qed
  have tr: "compared (snd (search_in_index env proc q index_path thr N)) = compared proc @ ?calls"
    by (simp add: search_in_index_compared rec fnd)
  have skip: "img_path \<notin> set ?calls \<and> img_path \<notin> fst ` set out"
    if "(img_path, feats) \<in> set (features data)"
      "shape_of (flatten q) = Some s1 \<and> shape_of (flatten feats) = Some s2 \<and> s1 \<noteq> s2"
    for img_path feats s1 s2
  proof -
    from that(2) have "shape_mismatch (flatten q) (flatten feats)"
      by (simp add: shapes_differ_mismatch)
    with dist that(1) have "img_path \<notin> set ?calls"
      by (rule mismatch_not_compared)
    with sub show ?thesis by blast
  qed
  show "\<exists>calls. compared (snd (search_in_index env proc q index_path thr N)) =
                 compared proc @ calls \<and>
         fst ` set out \<subseteq> set calls \<and>
         (\<forall>(img_path, feats) \<in> set (features data).
            \<forall>s1 s2. shape_of (flatten q) = Some s1 \<and> shape_of (flatten feats) = Some s2 \<and>
              s1 \<noteq> s2 \<longrightarrow>
              img_path \<notin> set calls \<and> img_path \<notin> fst ` set out)"
    using tr sub skip by blast
qed

theorem search_in_index_failures_witness:
  "map_of (indexes new_processor) ''missing'' = None \<and>
   storage (demo_env []) ''missing'' = None \<and>
   fst (search_in_index (demo_env []) new_processor (NdArray [1] [100]) ''missing'' (1 / 2) 0) =
     Inr [] \<and>
   index_record (demo_env [(''idx'', foreign_index)]) new_processor ''idx'' =
     Some foreign_index \<and>
   find (\<lambda>e. name e = extractor_name foreign_index)
     (available_extractors (demo_env [(''idx'', foreign_index)])) = None \<and>
   fst (search_in_index (demo_env [(''idx'', foreign_index)]) new_processor
          (NdArray [1] [100]) ''idx'' (1 / 2) 0) = Inr [] \<and>
   index_record (demo_env [(''idx'', shapes_index)]) new_processor ''idx'' =
     Some shapes_index \<and>
   find (\<lambda>e. name e = extractor_name shapes_index)
     (available_extractors (demo_env [(''idx'', shapes_index)])) = Some demo_extractor \<and>
   distinct (map fst (features shapes_index)) \<and>
   fst (search_in_index (demo_env [(''idx'', shapes_index)]) new_processor
          (NdArray [1] [100]) ''idx'' (1 / 2) 0) = Inr [(''a.jpg'', 9 / 10)] \<and>
   (''m.jpg'', NdArray [2, 1] [90, 90]) \<in> set (features shapes_index) \<and>
   shape_of (flatten (NdArray [1] [100])) = Some [1] \<and>
   shape_of (flatten (NdArray [2, 1] [90, 90])) = Some [2] \<and>
   [1::nat] \<noteq> [2] \<and>
   ''m.jpg'' \<notin> set (compared (snd (search_in_index (demo_env [(''idx'', shapes_index)])
                                   new_processor (NdArray [1] [100]) ''idx'' (1 / 2) 0)))"
proof -
  let ?q = "NdArray [1] [100]"
  have a1: "map_of (indexes new_processor) ''missing'' = None"
    by (simp add: new_processor_def)
  have a2: "storage (demo_env []) ''missing'' = None"
    by (simp add: demo_env_def)
  note t1 = search_in_index_failures [of new_processor "''missing''" "demo_env []" ?q "1 / 2" 0]
  have a3: "fst (search_in_index (demo_env []) new_processor ?q ''missing'' (1 / 2) 0) = Inr []"
    using conjunct1 [OF t1] a1 a2 by (rule_tac mp) (assumption, rule conjI)
  have b1: "index_record (demo_env [(''idx'', foreign_index)]) new_processor ''idx'' =
              Some foreign_index"
    by (simp add: index_record_def demo_env_def new_processor_def)
  have b2: "find (\<lambda>e. name e = extractor_name foreign_index)
              (available_extractors (demo_env [(''idx'', foreign_index)])) = None"
    by (simp add: demo_env_def foreign_index_def demo_extractor_def)
  note t2 = search_in_index_failures
      [of new_processor "''idx''" "demo_env [(''idx'', foreign_index)]" ?q "1 / 2" 0]
  note t2b = conjunct1 [OF conjunct2 [OF t2], rule_format]
  have b3: "fst (search_in_index (demo_env [(''idx'', foreign_index)]) new_processor ?q
                   ''idx'' (1 / 2) 0) = Inr []"
    by (rule t2b [OF conjI [OF b1 b2]])
  let ?E = "demo_env [(''idx'', shapes_index)]"
  have c1: "index_record ?E new_processor ''idx'' = Some shapes_index"
    by (simp add: index_record_def demo_env_def new_processor_def)
  have c2: "find (\<lambda>e. name e = extractor_name shapes_index) (available_extractors ?E) =
              Some demo_extractor"
    by (simp add: demo_env_def shapes_index_def demo_extractor_def)
  have c3: "distinct (map fst (features shapes_index))"
    by (simp add: shapes_index_def)
  have c4: "fst (search_in_index ?E new_processor ?q ''idx'' (1 / 2) 0) =
              Inr [(''a.jpg'', 9 / 10)]"
    by code_simp
  have c5: "(''m.jpg'', NdArray [2, 1] [90, 90]) \<in> set (features shapes_index)"
    by (simp add: shapes_index_def)
  have c6: "shape_of (flatten ?q) = Some [1]" by simp
  have c7: "shape_of (flatten (NdArray [2, 1] [90, 90])) = Some [2]" by simp
  have c8: "[1::nat] \<noteq> [2]" by simp
  note t3 = search_in_index_failures [of new_processor "''idx''" ?E ?q "1 / 2" 0]
  note t3d = conjunct2 [OF conjunct2 [OF conjunct2 [OF t3]], rule_format]
  from t3d [OF conjI [OF c1 conjI [OF c2 conjI [OF c3 c4]]]]
  obtain calls where
    tr: "compared (snd (search_in_index ?E new_processor ?q ''idx'' (1 / 2) 0)) =
           compared new_processor @ calls"
    and skip: "\<forall>(img_path, feats) \<in> set (features shapes_index).
            \<forall>s1 s2. shape_of (flatten ?q) = Some s1 \<and> shape_of (flatten feats) = Some s2 \<and>
              s1 \<noteq> s2 \<longrightarrow>
              img_path \<notin> set calls \<and> img_path \<notin> fst ` set [(''a.jpg'', 9 / 10 :: rat)]"
    by blast
  from bspec [OF skip c5] c6 c7 c8 have "''m.jpg'' \<notin> set calls"
    by simp
  with tr have c9: "''m.jpg'' \<notin> set (compared (snd (search_in_index ?E new_processor ?q
                                      ''idx'' (1 / 2) 0)))"
    by (simp add: new_processor_def)
  show ?thesis
    by (intro conjI) (rule a1 a2 a3 b1 b2 b3 c1 c2 c3 c4 c5 c6 c7 c8 c9)+
qed

section \<open>Properties of the worker threads\<close>

lemma running_flags_at:
  "running (flags_at sr i) = (case sr of None \<Rightarrow> True | Some k \<Rightarrow> i < k)"
  by (auto simp: flags_at_def initial_flags_def stop_def split: option.splits)

lemma cancelled_flags_at: "cancelled (flags_at sr i) = (\<not> running (flags_at sr i))"
  by (auto simp: flags_at_def initial_flags_def stop_def split: option.splits)

lemma progress_values_append:
  "progress_values (xs @ ys) = progress_values xs @ progress_values ys"
  by (induction xs rule: progress_values.induct) simp_all

lemma progress_values_map: "progress_values (map IndexProgress ps) = ps"
  by (induction ps) simp_all

lemma relay_progress:
  "relay w t (map IndexProgress ps @ es) = map IndexProgress ps @ relay w (t + length ps) es"
  by (induction ps arbitrary: t) simp_all

lemma sorted_percentages:
  "sorted (map (\<lambda>j. int (100 * (j + 1)) div int n) [a..<b])"
proof -
  have "sorted_wrt (\<lambda>x y. x \<le> y) [a..<b]"
    using sorted_upt by simp
  then have "sorted_wrt (\<lambda>x y. int (100 * (x + 1)) div int n \<le> int (100 * (y + 1)) div int n)
               [a..<b]"
  proof (rule sorted_wrt_mono_rel [rotated])
    fix x y :: nat
    assume "x \<le> y"
    then have "int (100 * (x + 1)) \<le> int (100 * (y + 1))" by simp
    then show "int (100 * (x + 1)) div int n \<le> int (100 * (y + 1)) div int n"
      by (cases "n = 0") (simp_all add: zdiv_mono1)
  qed
  then show ?thesis by (simp add: sorted_map)
qed

lemma index_files_shape:
  "\<exists>r m tl. index_files ext tot sr i files (d, ev) =
       (r, ev @ map (\<lambda>j. IndexProgress (int (100 * (j + 1)) div int tot)) [i..<i + m] @ tl) \<and>
     m \<le> length files \<and> progress_values tl = []"
proof (induction files arbitrary: i d ev)
  case Nil
  have "index_files ext tot sr i [] (d, ev) =
       (Some d, ev @ map (\<lambda>j. IndexProgress (int (100 * (j + 1)) div int tot)) [i..<i + 0] @ [])"
    by simp
  then show ?case by (metis le_refl list.size(3) progress_values.simps(1))
next
  case (Cons p files)
  show ?case
  proof (cases "running (flags_at sr i)")
    case False
    then have "index_files ext tot sr i (p # files) (d, ev) =
       (None, ev @ map (\<lambda>j. IndexProgress (int (100 * (j + 1)) div int tot)) [i..<i + 0] @
          [IndexFailed IndexingCancelled])"
      by (simp add: cancelled_flags_at)
    moreover have "progress_values [IndexFailed IndexingCancelled] = []" by simp
    ultimately show ?thesis by (metis le0)
  next
    case True
    let ?d1 = "case extract_features ext p of
                 Features feats \<Rightarrow> AList.update p feats d | _ \<Rightarrow> d"
    let ?ev1 = "ev @ [IndexProgress (int (100 * (i + 1)) div int tot)]"
    from Cons [of "Suc i" ?d1 ?ev1] obtain r m tl where
      ih: "index_files ext tot sr (Suc i) files (?d1, ?ev1) =
        (r, ?ev1 @ map (\<lambda>j. IndexProgress (int (100 * (j + 1)) div int tot)) [Suc i..<Suc i + m]
           @ tl)"
      and m: "m \<le> length files" and tl: "progress_values tl = []"
      by blast
    have upt: "[i..<i + Suc m] = i # [Suc i..<Suc i + m]"
      by (simp add: upt_rec)
    have "index_files ext tot sr i (p # files) (d, ev) =
       (r, ev @ map (\<lambda>j. IndexProgress (int (100 * (j + 1)) div int tot)) [i..<i + Suc m] @ tl)"
      unfolding upt using True ih by simp
    moreover have "Suc m \<le> length (p # files)" using m by simp
    ultimately show ?thesis using tl by blast
  qed
qed

lemma index_files_not_stopped:
  "\<exists>d'. index_files ext tot None i files (d, ev) =
       (Some d', ev @ map (\<lambda>j. IndexProgress (int (100 * (j + 1)) div int tot))
                        [i..<i + length files])"
proof (induction files arbitrary: i d ev)
  case Nil
  show ?case by simp
next
  case (Cons p files)
  let ?d1 = "case extract_features ext p of
               Features feats \<Rightarrow> AList.update p feats d | _ \<Rightarrow> d"
  let ?ev1 = "ev @ [IndexProgress (int (100 * (i + 1)) div int tot)]"
  from Cons [of "Suc i" ?d1 ?ev1] obtain d' where
    ih: "index_files ext tot None (Suc i) files (?d1, ?ev1) =
      (Some d', ?ev1 @ map (\<lambda>j. IndexProgress (int (100 * (j + 1)) div int tot))
                         [Suc i..<Suc i + length files])"
    by blast
  have upt: "[i..<i + length (p # files)] = i # [Suc i..<Suc i + length files]"
    by (simp add: upt_rec)
  have "index_files ext tot None i (p # files) (d, ev) =
      (Some d', ev @ map (\<lambda>j. IndexProgress (int (100 * (j + 1)) div int tot))
                       [i..<i + length (p # files)])"
    unfolding upt using ih by (simp add: running_flags_at)
  then show ?case by blast
qed

lemma index_files_stopped:
  assumes "i \<le> k" and "k < i + length files"
  shows "index_files ext tot (Some k) i files (d, ev) =
       (None, ev @ map (\<lambda>j. IndexProgress (int (100 * (j + 1)) div int tot)) [i..<k] @
              [IndexFailed IndexingCancelled])"
  using assms
proof (induction files arbitrary: i d ev)
  case Nil
  then show ?case by simp
next
  case (Cons p files)
  show ?case
  proof (cases "i = k")
    case True
    then show ?thesis by (simp add: running_flags_at cancelled_flags_at)
  next
    case False
    with Cons.prems have lt: "i < k" and bounds: "Suc i \<le> k" "k < Suc i + length files"
      by simp_all
    have upt: "[i..<k] = i # [Suc i..<k]" using lt by (simp add: upt_rec)
    show ?thesis
      unfolding upt using lt Cons.IH [OF bounds] by (simp add: running_flags_at)
  qed
qed

lemma scan_files_stopped:
  assumes "i \<le> k" and "k < i + length files"
  shows "scan_files ext qf thr tot (Some k) i files (results, events) =
       (results @ qualifying_files ext qf thr (take (k - i) files),
        events @ map (\<lambda>j. ProgressUpdate (int (100 * j) div int tot)) [i..<k] @
          [SearchCancelled])"
  using assms
proof (induction files arbitrary: i results events)
  case Nil
  then show ?case by simp
next
  case (Cons p files)
  show ?case
  proof (cases "i = k")
    case True
    then show ?thesis
      by (simp add: running_flags_at cancelled_flags_at qualifying_files_def map_filter_simps)
  next
    case False
    with Cons.prems have lt: "i < k" and bounds: "Suc i \<le> k" "k < Suc i + length files"
      by simp_all
    have upt: "[i..<k] = i # [Suc i..<k]" using lt by (simp add: upt_rec)
    have tk: "take (k - i) (p # files) = p # take (k - Suc i) files"
      using lt by (simp add: take_Cons')
    show ?thesis
      unfolding upt tk using lt Cons.IH [OF bounds]
      by (simp add: running_flags_at qualifying_files_def map_filter_simps
          split: extraction.splits option.splits nat.splits)
  qed
qed

lemma SearchWorker_run_stopped:
  assumes "extract_features ext query_path = Features qf" and "py_len qf = Some (Suc m)"
    and "k < length files"
  shows "SearchWorker_run ext query_path files thr N (Some k) =
     map (\<lambda>j. ProgressUpdate (int (100 * j) div int (length files))) [0..<k] @
     [SearchCancelled,
      ResultReady (limit_results N (sort_by_similarity
                     (qualifying_files ext qf thr (take k files)))),
      ProgressUpdate 100]"
proof -
  from assms(3) have ne: "length files \<noteq> 0" by auto
  have "scan_files ext qf thr (length files) (Some k) 0 files ([], []) =
       ([] @ qualifying_files ext qf thr (take (k - 0) files),
        [] @ map (\<lambda>j. ProgressUpdate (int (100 * j) div int (length files))) [0..<k] @
          [SearchCancelled])"
    using assms(3) by (intro scan_files_stopped) simp_all
  then show ?thesis
    using assms(1,2) ne by (simp add: SearchWorker_run_def)
qed

lemma FeatureIndexer_run_progress:
  "\<exists>m. progress_values (fst (FeatureIndexer_run ext files out now writable sr store)) =
         map (\<lambda>j. int (100 * (j + 1)) div int (length files)) [0..<m]"
proof (cases "length files = 0")
  case True
  then have "progress_values (fst (FeatureIndexer_run ext files out now writable sr store)) =
         map (\<lambda>j. int (100 * (j + 1)) div int (length files)) [0..<0]"
    by (simp add: FeatureIndexer_run_def)
  then show ?thesis by blast
next
  case False
  from index_files_shape [of ext "length files" sr 0 files "[]" "[]"]
  obtain r m tl where
    eq: "index_files ext (length files) sr 0 files ([], []) =
       (r, map (\<lambda>j. IndexProgress (int (100 * (j + 1)) div int (length files))) [0..<m] @ tl)"
    and tl: "progress_values tl = []"
    by auto
  have pv: "progress_values
          (map (\<lambda>j. IndexProgress (int (100 * (j + 1)) div int (length files))) [0..<m]) =
        map (\<lambda>j. int (100 * (j + 1)) div int (length files)) [0..<m]"
    using progress_values_map [of "map (\<lambda>j. int (100 * (j + 1)) div int (length files)) [0..<m]"]
    by (simp add: comp_def)
  have "progress_values (fst (FeatureIndexer_run ext files out now writable sr store)) =
         map (\<lambda>j. int (100 * (j + 1)) div int (length files)) [0..<m]"
    using False eq tl pv
    by (cases r) (simp_all add: FeatureIndexer_run_def Let_def progress_values_append)
  then show ?thesis by blast
qed

lemma FeatureIndexer_run_not_stopped:
  "progress_values (fst (FeatureIndexer_run ext files out now writable None store)) =
     map (\<lambda>j. int (100 * (j + 1)) div int (length files)) [0..<length files]"
proof (cases "length files = 0")
  case True
  then show ?thesis by (simp add: FeatureIndexer_run_def)
next
  case False
  from index_files_not_stopped [of ext "length files" 0 files "[]" "[]"]
  obtain d' where
    eq: "index_files ext (length files) None 0 files ([], []) =
       (Some d', map (\<lambda>j. IndexProgress (int (100 * (j + 1)) div int (length files)))
                   [0..<length files])"
    by auto
  have pv: "progress_values
          (map (\<lambda>j. IndexProgress (int (100 * (j + 1)) div int (length files)))
             [0..<length files]) =
        map (\<lambda>j. int (100 * (j + 1)) div int (length files)) [0..<length files]"
    using progress_values_map
      [of "map (\<lambda>j. int (100 * (j + 1)) div int (length files)) [0..<length files]"]
    by (simp add: comp_def)
  show ?thesis
    using False eq pv
    by (simp add: FeatureIndexer_run_def Let_def progress_values_append)
qed

lemma FeatureIndexer_run_stopped:
  assumes "k < length files"
  shows "FeatureIndexer_run ext files out now writable (Some k) store =
     (map (\<lambda>j. IndexProgress (int (100 * (j + 1)) div int (length files))) [0..<k] @
        [IndexFailed IndexingCancelled], store)"
proof -
  from assms have ne: "length files \<noteq> 0" by auto
  have "index_files ext (length files) (Some k) 0 files ([], []) =
       (None, [] @ map (\<lambda>j. IndexProgress (int (100 * (j + 1)) div int (length files))) [0..<k] @
              [IndexFailed IndexingCancelled])"
    using assms by (intro index_files_stopped) simp_all
  then show ?thesis using ne by (simp add: FeatureIndexer_run_def Let_def)
qed

section \<open>A scan of a folder without images\<close>

text \<open>
  C9. When the features of the query image are extracted and not empty, a scan of a folder
  in which the extension patterns find no file delivers the empty result list and then the
  progress value 100, whatever the stop request; it emits no error. The indexer, on the same
  folder, emits the failure "no images found".
\<close>

theorem scan_of_empty_folder:
  assumes "extract_features ext query_path = Features qf" and "py_len qf = Some (Suc m)"
  shows "SearchWorker_run ext query_path [] thr N stop_request =
           [ResultReady [], ProgressUpdate 100] \<and>
         fst (FeatureIndexer_run index_ext [] out now writable index_stop store) =
           [IndexFailed NoImagesFound]"
  using assms by (simp add: SearchWorker_run_def FeatureIndexer_run_def)

theorem scan_of_empty_folder_witness:
  "extract_features demo_extractor ''query.jpg'' = Features (NdArray [1] [100]) \<and>
   py_len (NdArray [1] [100]) = Some (Suc 0) \<and>
   SearchWorker_run demo_extractor ''query.jpg'' [] (1 / 2) 5 (Some 0) =
     [ResultReady [], ProgressUpdate 100] \<and>
   fst (FeatureIndexer_run demo_extractor [] ''out.pkl'' 0 (\<lambda>p. True) None (\<lambda>p. None)) =
     [IndexFailed NoImagesFound]"
proof -
  have h1: "extract_features demo_extractor ''query.jpg'' = Features (NdArray [1] [100])"
    by (simp add: demo_extractor_def demo_extract_def)
  have h2: "py_len (NdArray [1] [100]) = Some (Suc 0)" by simp
  note t = scan_of_empty_folder [OF h1 h2, of "1 / 2" 5 "Some 0" demo_extractor "''out.pkl''" 0
      "\<lambda>p. True" None "\<lambda>p. None"]
  show ?thesis
    by (intro conjI) (rule h1 h2 conjunct1 [OF t] conjunct2 [OF t])+
qed

section \<open>Cancellation of a scan\<close>

text \<open>
  C2. A scan of three files whose stop request arrives after two polls emits the
  cancellation signal once, and then, because the loop is left with \<^verbatim>\<open>break\<close> and not with
  \<^verbatim>\<open>return\<close>, the sorted list of the results found so far and the progress value 100.
  The lemma \<open>SearchWorker_run_stopped\<close> shows the same for every stopped scan.
\<close>

theorem stopped_scan_delivers_results:
  "SearchWorker_run demo_extractor ''query.jpg'' [''a.jpg'', ''b.jpg'', ''c.jpg''] (1 / 2) 0
     (Some 2) =
     [ProgressUpdate 0, ProgressUpdate 33, SearchCancelled,
      ResultReady [(''a.jpg'', 9 / 10)], ProgressUpdate 100]"
  by code_simp

section \<open>Cancellation of an indexing run\<close>

text \<open>
  A stop request that reaches the indexer: an indexing run over \<open>n\<close> files that the indexer
  sees stopped after \<open>k < n\<close> files emits the progress signals of its first \<open>k\<close> files and
  then the cancellation signal, which is neither the failure nor the completion signal; the
  storage is as it was before the run; and no progress signal exceeds the one of file \<open>k\<close>.
  The indexer itself reports the stop as a failure, which the worker's handler turns into the
  cancellation.
\<close>

lemma stopped_indexing_is_cancelled:
  assumes "k < length files"
  shows "IndexWorker_run ext files out now writable (StoppedAfter k) store =
           (map (\<lambda>j. IndexProgress (int (100 * (j + 1)) div int (length files))) [0..<k] @
              [IndexCancelled], store) \<and>
         (\<forall>p \<in> set (progress_values
                      (fst (IndexWorker_run ext files out now writable (StoppedAfter k) store))).
            p \<le> int (100 * k) div int (length files)) \<and>
         fst (FeatureIndexer_run ext files out now writable (Some k) store) =
           map (\<lambda>j. IndexProgress (int (100 * (j + 1)) div int (length files))) [0..<k] @
             [IndexFailed IndexingCancelled]"
proof -
  let ?ps = "map (\<lambda>j. int (100 * (j + 1)) div int (length files)) [0..<k]"
  have m: "map (\<lambda>j. IndexProgress (int (100 * (j + 1)) div int (length files))) [0..<k] =
           map IndexProgress ?ps"
    by (simp add: comp_def)
  note ind = FeatureIndexer_run_stopped [OF assms, of ext out now writable store]
  have run: "IndexWorker_run ext files out now writable (StoppedAfter k) store =
           (map IndexProgress ?ps @ [IndexCancelled], store)"
    by (simp only: IndexWorker_run_def indexer_stop.simps ind Let_def prod.case m relay_progress
        relay.simps worker_cancelled.simps handle_index_failed_def length_map length_upt
        add_0 diff_zero order_refl if_True)
  have bound: "p \<le> int (100 * k) div int (length files)" if "p \<in> set ?ps" for p
  proof -
    from that obtain j where j: "j < k" "p = int (100 * (j + 1)) div int (length files)"
      by auto
    from j(1) have "int (100 * (j + 1)) \<le> int (100 * k)" by simp
    then show ?thesis
      unfolding j(2) using assms by (intro zdiv_mono1) auto
  qed
  have pv: "progress_values (map IndexProgress ?ps @ [IndexCancelled]) = ?ps"
    by (simp only: progress_values_append progress_values_map) simp
  show ?thesis
  proof (intro conjI)
    show "IndexWorker_run ext files out now writable (StoppedAfter k) store =
           (map (\<lambda>j. IndexProgress (int (100 * (j + 1)) div int (length files))) [0..<k] @
              [IndexCancelled], store)"
      by (simp only: run m)
    show "\<forall>p \<in> set (progress_values
                      (fst (IndexWorker_run ext files out now writable (StoppedAfter k) store))).
            p \<le> int (100 * k) div int (length files)"
      unfolding run fst_conv pv using bound by blast
    show "fst (FeatureIndexer_run ext files out now writable (Some k) store) =
           map (\<lambda>j. IndexProgress (int (100 * (j + 1)) div int (length files))) [0..<k] @
             [IndexFailed IndexingCancelled]"
      by (simp only: ind fst_conv)
  qed
qed

lemma stopped_indexing_is_cancelled_example:
  "(3::nat) < length [''f0'', ''f1'', ''f2'', ''f3'', ''f4'', ''f5'', ''f6'', ''f7'', ''f8'', ''f9''] \<and>
   fst (IndexWorker_run demo_extractor
          [''f0'', ''f1'', ''f2'', ''f3'', ''f4'', ''f5'', ''f6'', ''f7'', ''f8'', ''f9'']
          ''out.pkl'' 0 (\<lambda>p. True) (StoppedAfter 3) (\<lambda>p. None)) =
     [IndexProgress 10, IndexProgress 20, IndexProgress 30, IndexCancelled] \<and>
   snd (IndexWorker_run demo_extractor
          [''f0'', ''f1'', ''f2'', ''f3'', ''f4'', ''f5'', ''f6'', ''f7'', ''f8'', ''f9'']
          ''out.pkl'' 0 (\<lambda>p. True) (StoppedAfter 3) (\<lambda>p. None)) ''out.pkl'' = None \<and>
   (30::int) \<le> int (100 * 3) div
      int (length [''f0'', ''f1'', ''f2'', ''f3'', ''f4'', ''f5'', ''f6'', ''f7'', ''f8'', ''f9''])"
proof -
  let ?fs = "[''f0'', ''f1'', ''f2'', ''f3'', ''f4'', ''f5'', ''f6'', ''f7'', ''f8'', ''f9'']"
  have h: "(3::nat) < length ?fs" by simp
  note t = stopped_indexing_is_cancelled [OF h, of demo_extractor "''out.pkl''" 0 "\<lambda>p. True"
      "\<lambda>p. None"]
  have ev: "map (\<lambda>j. IndexProgress (int (100 * (j + 1)) div int (length ?fs))) [0..<3] @
              [IndexCancelled] =
            [IndexProgress 10, IndexProgress 20, IndexProgress 30, IndexCancelled]"
    by code_simp
  have a: "fst (IndexWorker_run demo_extractor ?fs ''out.pkl'' 0 (\<lambda>p. True) (StoppedAfter 3)
                  (\<lambda>p. None)) =
           [IndexProgress 10, IndexProgress 20, IndexProgress 30, IndexCancelled]"
    unfolding conjunct1 [OF t] fst_conv by (rule ev)
  have b: "snd (IndexWorker_run demo_extractor ?fs ''out.pkl'' 0 (\<lambda>p. True) (StoppedAfter 3)
                  (\<lambda>p. None)) ''out.pkl'' = None"
    unfolding conjunct1 [OF t] snd_conv by (rule refl)
  have mem: "(30::int) \<in> set (progress_values
      (fst (IndexWorker_run demo_extractor ?fs ''out.pkl'' 0 (\<lambda>p. True) (StoppedAfter 3)
              (\<lambda>p. None))))"
    unfolding a by simp
  have c: "(30::int) \<le> int (100 * 3) div int (length ?fs)"
    by (rule bspec [OF conjunct1 [OF conjunct2 [OF t]] mem])
  show ?thesis
    by (intro conjI) (rule h a b c)+
qed

text \<open>
  C3. A stop request that comes before the worker's run has created the indexer sets the
  worker's flag only: \<^verbatim>\<open>IndexWorker.stop\<close> calls the indexer's \<^verbatim>\<open>stop\<close> only when the
  indexer exists, and the run does not read the worker's flag before it starts the indexer.
  On a folder of three files such a run, stopped after no file, emits all three progress
  signals up to 100, writes the index file with the three entries, and only then reports the
  cancellation.
\<close>

theorem stop_before_indexer_persists_index:
  "fst (IndexWorker_run demo_extractor [''a.jpg'', ''b.jpg'', ''c.jpg''] ''out.pkl'' 0
          (\<lambda>p. True) StoppedBeforeIndexer (\<lambda>p. None)) =
     [IndexProgress 33, IndexProgress 66, IndexProgress 100, IndexCancelled] \<and>
   map_option features
     (snd (IndexWorker_run demo_extractor [''a.jpg'', ''b.jpg'', ''c.jpg''] ''out.pkl'' 0
             (\<lambda>p. True) StoppedBeforeIndexer (\<lambda>p. None)) ''out.pkl'') =
     Some [(''a.jpg'', NdArray [1] [90]), (''b.jpg'', NdArray [1] [40]),
           (''c.jpg'', NdArray [1] [95])]"
  by code_simp

section \<open>The progress of an indexing run\<close>

text \<open>
  C5, as amended. An indexing run emits one progress signal after each processed file, and the
  signal after the \<open>i\<close>-th of \<open>n\<close> files is \<^verbatim>\<open>int(100 * i / n)\<close>, the quotient rounded down, not
  rounded to the nearest integer. The progress signals of a run, stopped or not, never
  decrease.
\<close>

theorem indexer_progress_truncates:
  "progress_values (fst (FeatureIndexer_run ext files out now writable None store)) =
     map (\<lambda>i. int (100 * i) div int (length files)) [1..<Suc (length files)] \<and>
   sorted (progress_values (fst (FeatureIndexer_run ext files out now writable stop_request
                                   store)))"
proof
  have "map (\<lambda>i. int (100 * i) div int (length files)) [1..<Suc (length files)] =
        map (\<lambda>i. int (100 * i) div int (length files)) (map Suc [0..<length files])"
    by (simp only: map_Suc_upt One_nat_def)
  also have "\<dots> = map (\<lambda>j. int (100 * (j + 1)) div int (length files)) [0..<length files]"
    by (simp add: comp_def)
  finally show "progress_values (fst (FeatureIndexer_run ext files out now writable None store)) =
     map (\<lambda>i. int (100 * i) div int (length files)) [1..<Suc (length files)]"
    by (simp only: FeatureIndexer_run_not_stopped)
  from FeatureIndexer_run_progress [of ext files out now writable stop_request store]
  obtain m where
    "progress_values (fst (FeatureIndexer_run ext files out now writable stop_request store)) =
       map (\<lambda>j. int (100 * (j + 1)) div int (length files)) [0..<m]"
    by blast
  then show "sorted (progress_values (fst (FeatureIndexer_run ext files out now writable
                                            stop_request store)))"
    by (simp only: sorted_percentages)
qed

text \<open>
  C5 as stated fails on a folder of three files: the signal after the second file is
  66, and the rounded value is 67.
\<close>

theorem indexer_progress_not_rounded:
  "progress_values
     (fst (FeatureIndexer_run demo_extractor [''a.jpg'', ''b.jpg'', ''c.jpg''] ''out.pkl'' 0
             (\<lambda>p. True) None (\<lambda>p. None))) = [33, 66, 100] \<and>
   map (\<lambda>i. spec_progress i 3) [1, 2, 3] = [33, 67, 100] \<and>
   progress_values
     (fst (FeatureIndexer_run demo_extractor [''a.jpg'', ''b.jpg'', ''c.jpg''] ''out.pkl'' 0
             (\<lambda>p. True) None (\<lambda>p. None))) \<noteq> map (\<lambda>i. spec_progress i 3) [1, 2, 3]"
proof -
  have a: "progress_values
     (fst (FeatureIndexer_run demo_extractor [''a.jpg'', ''b.jpg'', ''c.jpg''] ''out.pkl'' 0
             (\<lambda>p. True) None (\<lambda>p. None))) = [33, 66, 100]"
    by code_simp
  have b: "map (\<lambda>i. spec_progress i 3) [1, 2, 3] = [33, 67, 100]"
    by code_simp
  show ?thesis unfolding a b by simp
qed

section \<open>The update option of the index dialog\<close>

text \<open>
  C4. The dialog starts the same indexing run for the option "update the selected index
  (add new images)" as for a confirmed "recreate the index": the existing record is not
  read, every file of the folder is extracted again, and the record is replaced. With an
  index that holds \<open>a.jpg\<close> with an old feature, and a folder with \<open>a.jpg\<close> and \<open>b.jpg\<close>, the
  update stores the new feature of \<open>a.jpg\<close> beside the one of \<open>b.jpg\<close>.
\<close>

theorem update_option_rebuilds_index:
  "start_indexing (dlg\<lparr>checked_option := UpdateExisting\<rparr>) files now writable w store =
     start_indexing (dlg\<lparr>checked_option := RecreateIndex, reply_yes := True\<rparr>) files now
       writable w store \<and>
   (case start_indexing (demo_dialog UpdateExisting) [''a.jpg'', ''b.jpg''] 1 (\<lambda>p. True)
           NeverStopped (map_of [(''idx'', demo_index [(''a.jpg'', 10)])]) of
      Inr (Some (events, store1)) \<Rightarrow> Some (events, map_option features (store1 ''idx''))
    | _ \<Rightarrow> None) =
     Some ([IndexProgress 50, IndexProgress 100, IndexCompleted ''idx''],
           Some [(''a.jpg'', NdArray [1] [90]), (''b.jpg'', NdArray [1] [40])])"
proof
  show "start_indexing (dlg\<lparr>checked_option := UpdateExisting\<rparr>) files now writable w store =
     start_indexing (dlg\<lparr>checked_option := RecreateIndex, reply_yes := True\<rparr>) files now
       writable w store"
    by (simp add: start_indexing_def Let_def split: option.splits)
  show "(case start_indexing (demo_dialog UpdateExisting) [''a.jpg'', ''b.jpg''] 1 (\<lambda>p. True)
           NeverStopped (map_of [(''idx'', demo_index [(''a.jpg'', 10)])]) of
      Inr (Some (events, store1)) \<Rightarrow> Some (events, map_option features (store1 ''idx''))
    | _ \<Rightarrow> None) =
     Some ([IndexProgress 50, IndexProgress 100, IndexCompleted ''idx''],
           Some [(''a.jpg'', NdArray [1] [90]), (''b.jpg'', NdArray [1] [40])])"
    by code_simp
qed

section \<open>The cache of loaded indexes\<close>




section \<open>The limit in the multi-index search\<close>

lemma search_in_index_record_kept:
  "index_record env (snd (search_in_index env proc q p' thr N)) p = index_record env proc p"
proof -
  have "indexes (snd (search_in_index env proc q p' thr N)) = indexes proc \<or>
        (\<exists>d. map_of (indexes proc) p' = None \<and> storage env p' = Some d \<and>
             indexes (snd (search_in_index env proc q p' thr N)) =
               AList.update p' d (indexes proc))"
    by (auto simp: search_in_index_def load_index_def Let_def
        split: option.splits prod.splits)
  then show ?thesis
  proof
    assume "indexes (snd (search_in_index env proc q p' thr N)) = indexes proc"
    then show ?thesis by (simp add: index_record_def)
  next
    assume "\<exists>d. map_of (indexes proc) p' = None \<and> storage env p' = Some d \<and>
             indexes (snd (search_in_index env proc q p' thr N)) =
               AList.update p' d (indexes proc)"
    then obtain d where d: "map_of (indexes proc) p' = None" "storage env p' = Some d"
      "indexes (snd (search_in_index env proc q p' thr N)) = AList.update p' d (indexes proc)"
      by blast
    show ?thesis
      by (cases "p = p'") (simp_all add: index_record_def d update_conv')
  qed
qed

lemma search_in_index_by_record:
  "index_record env proc1 p = index_record env proc2 p \<Longrightarrow>
   fst (search_in_index env proc1 q p thr N) = fst (search_in_index env proc2 q p thr N)"
  by (simp add: search_in_index_result)

lemma search_in_index_returns:
  "fst (search_in_index env proc q p thr N) = Inr (index_results env proc q p thr N)"
  by (simp add: index_results_def search_in_index_result split: option.splits)

lemma index_results_by_record:
  assumes "index_record env proc1 p = index_record env proc2 p"
  shows "index_results env proc1 q p thr N = index_results env proc2 q p thr N"
  by (simp only: index_results_def search_in_index_by_record [OF assms, of q thr N])

lemma run_threads_fold:
  assumes "\<And>p. index_record env proc' p = index_record env proc p"
  shows "fst (run_threads env q thr N keys (rpi, proc')) =
           fold (\<lambda>p. AList.update p (index_results env proc q p thr N)) keys rpi"
  using assms
proof (induction keys arbitrary: rpi proc')
  case Nil
  show ?case by simp
next
  case (Cons p keys)
  obtain res proc1 where sp: "search_in_index env proc' q p thr N = (res, proc1)"
    by (cases "search_in_index env proc' q p thr N")
  have "res = Inr (index_results env proc' q p thr N)"
    using search_in_index_returns [of env proc' q p thr N] sp by simp
  also have "index_results env proc' q p thr N = index_results env proc q p thr N"
    by (rule index_results_by_record) (rule Cons.prems)
  finally have res: "res = Inr (index_results env proc q p thr N)" .
  have "proc1 = snd (search_in_index env proc' q p thr N)" using sp by simp
  then have kept: "index_record env proc1 k = index_record env proc k" for k
    using search_in_index_record_kept [of env proc' q p thr N k] Cons.prems [of k] by simp
  have "fst (run_threads env q thr N (p # keys) (rpi, proc')) =
        fst (run_threads env q thr N keys
               (AList.update p (index_results env proc q p thr N) rpi, proc1))"
    by (simp add: sp res)
  also have "\<dots> = fold (\<lambda>p. AList.update p (index_results env proc q p thr N)) keys
                     (AList.update p (index_results env proc q p thr N) rpi)"
    by (rule Cons.IH) (rule kept)
  finally show ?case by simp
qed

lemma set_update_same:
  assumes "\<forall>(k', v') \<in> set al. v' = f k'"
  shows "set (AList.update k (f k) al) = set al \<union> {(k, f k)}"
  using assms by (induction al) auto

lemma fold_update_set:
  assumes "\<forall>(k', v') \<in> set al. v' = f k'"
  shows "set (fold (\<lambda>p. AList.update p (f p)) keys al) = set al \<union> (\<lambda>p. (p, f p)) ` set keys"
  using assms
proof (induction keys arbitrary: al)
  case Nil
  show ?case by simp
next
  case (Cons k keys)
  have s: "set (AList.update k (f k) al) = set al \<union> {(k, f k)}"
    using Cons.prems by (rule set_update_same)
  then have inv: "\<forall>(k', v') \<in> set (AList.update k (f k) al). v' = f k'"
    using Cons.prems by auto
  show ?case
    using Cons.IH [OF inv] s by auto
qed

lemma set_merged_lists:
  "set (concat (map snd (fold (\<lambda>p. AList.update p (f p)) keys []))) = (\<Union>p \<in> set keys. set (f p))"
proof -
  have "set (fold (\<lambda>p. AList.update p (f p)) keys []) = (\<lambda>p. (p, f p)) ` set keys"
    using fold_update_set [of "[]" f keys] by simp
  then show ?thesis by auto
qed

lemma index_results_limited:
  "N > 0 \<Longrightarrow> length (index_results env proc q p thr N) \<le> nat N"
  by (simp add: index_results_def search_in_index_result limit_results_def
      split: option.splits)

text \<open>
  C1, as amended. The multi-index search hands the caller's limit to every per-index search
  and applies it again after the merge. In whatever order the per-index searches complete,
  the result is the merge of the lists that the searches return for the limit \<open>N\<close>,
  assigned to the dictionary in the order of completion; for \<open>N > 0\<close> each of these lists,
  and the result, has at most \<open>N\<close> entries; the result has no path twice and is in
  descending order; and every pair of the result comes from the limited list of one of the
  indexes and carries the greatest similarity that its path has in any of these lists.
\<close>

theorem search_many_limits_per_index:
  assumes "mset completion = mset index_paths"
  shows "fst (search_in_multiple_indexes env proc q index_paths completion thr N) =
           merge_results
             (map snd (fold (\<lambda>p. AList.update p (index_results env proc q p thr N))
                         completion [])) N \<and>
         (N > 0 \<longrightarrow>
            (\<forall>p \<in> set index_paths. length (index_results env proc q p thr N) \<le> nat N) \<and>
            length (fst (search_in_multiple_indexes env proc q index_paths completion thr N))
              \<le> nat N) \<and>
         distinct (map fst
           (fst (search_in_multiple_indexes env proc q index_paths completion thr N))) \<and>
         sorted_wrt (\<lambda>a b. snd a \<ge> snd b)
           (fst (search_in_multiple_indexes env proc q index_paths completion thr N)) \<and>
         (\<forall>(img, s) \<in> set (fst (search_in_multiple_indexes env proc q index_paths completion
                                  thr N)).
            (\<exists>p \<in> set index_paths. (img, s) \<in> set (index_results env proc q p thr N)) \<and>
            (\<forall>p \<in> set index_paths. \<forall>s'.
               (img, s') \<in> set (index_results env proc q p thr N) \<longrightarrow> s' \<le> s))"
proof -
  let ?f = "\<lambda>p. index_results env proc q p thr N"
  let ?lists = "map snd (fold (\<lambda>p. AList.update p (?f p)) completion [])"
  let ?out = "fst (search_in_multiple_indexes env proc q index_paths completion thr N)"
  have keys: "set completion = set index_paths"
    using assms by (rule mset_eq_setD)
  have rt: "fst (run_threads env q thr N completion ([], proc)) =
              fold (\<lambda>p. AList.update p (?f p)) completion []"
    by (rule run_threads_fold) (rule refl)
  have "?out = merge_results (map snd (fst (run_threads env q thr N completion ([], proc)))) N"
    by (simp add: search_in_multiple_indexes_def case_prod_unfold Let_def)
  then have eq: "?out = merge_results ?lists N"
    by (simp only: rt)
  have all: "set (concat ?lists) = (\<Union>p \<in> set index_paths. set (?f p))"
    unfolding keys [symmetric] by (rule set_merged_lists)
  have len: "length (merge_results xs N) \<le> nat N" if "N > 0" for xs
    using that by (simp add: merge_results_def limit_results_def)
  have best: "(\<exists>p \<in> set index_paths. (img, s) \<in> set (?f p)) \<and>
              (\<forall>p \<in> set index_paths. \<forall>s'. (img, s') \<in> set (?f p) \<longrightarrow> s' \<le> s)"
    if "(img, s) \<in> set ?out" for img s
  proof -
    from that have "(img, s) \<in> set (merge_results ?lists N)" by (simp only: eq)
    from merge_results_best [OF this]
    have "(img, s) \<in> set (concat ?lists)"
      and "\<forall>s'. (img, s') \<in> set (concat ?lists) \<longrightarrow> s' \<le> s"
      by blast+
    then show ?thesis unfolding all by blast
  qed
  show ?thesis
  proof (intro conjI impI ballI)
    show "?out = merge_results ?lists N" by (rule eq)
  next
    fix p assume "0 < N"
    then show "length (?f p) \<le> nat N" by (rule index_results_limited)
  next
    assume "0 < N"
    then show "length ?out \<le> nat N" unfolding eq by (rule len)
  next
    show "distinct (map fst ?out)" unfolding eq by (rule merge_results_distinct)
  next
    show "sorted_wrt (\<lambda>a b. snd a \<ge> snd b) ?out" unfolding eq by (rule merge_results_sorted)
  next
    fix x assume x: "x \<in> set ?out"
    obtain img s where xs: "x = (img, s)" by (cases x)
    from best [of img s] x
    show "case x of (img, s) \<Rightarrow>
            (\<exists>p \<in> set index_paths. (img, s) \<in> set (?f p)) \<and>
            (\<forall>p \<in> set index_paths. \<forall>s'. (img, s') \<in> set (?f p) \<longrightarrow> s' \<le> s)"
      unfolding xs by simp
  qed
qed

theorem search_many_limits_per_index_witness:
  "mset [''idx3'', ''idx1'', ''idx2''] = mset [''idx1'', ''idx2'', ''idx3''] \<and>
   (2::int) > 0 \<and>
   fst (search_in_multiple_indexes three_indexes new_processor (NdArray [1] [100])
          [''idx1'', ''idx2'', ''idx3''] [''idx3'', ''idx1'', ''idx2''] (1 / 2) 2) =
     merge_results
       (map snd
          (fold (\<lambda>p. AList.update p
                        (index_results three_indexes new_processor (NdArray [1] [100]) p
                           (1 / 2) 2))
             [''idx3'', ''idx1'', ''idx2''] [])) 2 \<and>
   ''idx1'' \<in> set [''idx1'', ''idx2'', ''idx3''] \<and>
   length (index_results three_indexes new_processor (NdArray [1] [100]) ''idx1'' (1 / 2) 2)
     \<le> nat 2 \<and>
   length (fst (search_in_multiple_indexes three_indexes new_processor (NdArray [1] [100])
                  [''idx1'', ''idx2'', ''idx3''] [''idx3'', ''idx1'', ''idx2''] (1 / 2) 2))
     \<le> nat 2 \<and>
   (''B'', 9 / 10) \<in>
     set (fst (search_in_multiple_indexes three_indexes new_processor (NdArray [1] [100])
                 [''idx1'', ''idx2'', ''idx3''] [''idx3'', ''idx1'', ''idx2''] (1 / 2) 2)) \<and>
   (\<exists>p \<in> set [''idx1'', ''idx2'', ''idx3''].
      (''B'', 9 / 10) \<in>
        set (index_results three_indexes new_processor (NdArray [1] [100]) p (1 / 2) 2)) \<and>
   ''idx3'' \<in> set [''idx1'', ''idx2'', ''idx3''] \<and>
   (''B'', 9 / 10) \<in>
     set (index_results three_indexes new_processor (NdArray [1] [100]) ''idx3'' (1 / 2) 2) \<and>
   (9 / 10 :: rat) \<le> 9 / 10"
proof -
  let ?q = "NdArray [1] [100]"
  let ?paths = "[''idx1'', ''idx2'', ''idx3'']"
  let ?order = "[''idx3'', ''idx1'', ''idx2'']"
  let ?out = "fst (search_in_multiple_indexes three_indexes new_processor ?q ?paths ?order
                     (1 / 2) 2)"
  have h1: "mset ?order = mset ?paths" by simp
  have h2: "(2::int) > 0" by simp
  note t = search_many_limits_per_index [OF h1, of three_indexes new_processor ?q "1 / 2" 2]
  note eq = conjunct1 [OF t]
  note lim = mp [OF conjunct1 [OF conjunct2 [OF t]] h2]
  note best = conjunct2 [OF conjunct2 [OF conjunct2 [OF conjunct2 [OF t]]]]
  have m1: "''idx1'' \<in> set ?paths" by simp
  have m3: "''idx3'' \<in> set ?paths" by simp
  have "?out = [(''B'', 9 / 10), (''C'', 9 / 10)]" by code_simp
  then have mem: "(''B'', 9 / 10) \<in> set ?out" by simp
  have b: "(\<exists>p \<in> set ?paths.
              (''B'', 9 / 10) \<in> set (index_results three_indexes new_processor ?q p (1 / 2) 2)) \<and>
           (\<forall>p \<in> set ?paths. \<forall>s'.
              (''B'', s') \<in> set (index_results three_indexes new_processor ?q p (1 / 2) 2) \<longrightarrow>
              s' \<le> 9 / 10)"
    using bspec [OF best mem] unfolding prod.case .
  have "index_results three_indexes new_processor ?q ''idx3'' (1 / 2) 2 = [(''B'', 9 / 10)]"
    by code_simp
  then have in3: "(''B'', 9 / 10) \<in>
                    set (index_results three_indexes new_processor ?q ''idx3'' (1 / 2) 2)"
    by simp
  note le = mp [OF spec [OF bspec [OF conjunct2 [OF b] m3]] in3]
  show ?thesis
    by (intro conjI)
       (rule h1 h2 eq m1 bspec [OF conjunct1 [OF lim] m1] conjunct2 [OF lim] mem
          conjunct1 [OF b] m3 in3 le)+
qed

text \<open>
  C1 as stated fails. With the limit 2, and in every order of completion, the search of the
  first index is itself limited to 2 and returns two results, where the unlimited search
  returns three: the pair of \<open>B\<close> is lost before the merge. When the searches complete in the
  order of the index paths, the result also differs from the merge of the unlimited lists
  truncated to 2, in the order of its two results, which have the same similarity: \<open>B\<close> is
  seen first in the unlimited lists and \<open>C\<close> in the limited ones.
\<close>

theorem search_many_limit_not_only_after_merge:
  "list_all
     (\<lambda>completion.
        map_of (fst (run_threads three_indexes (NdArray [1] [100]) (1 / 2) 2 completion
                       ([], new_processor))) ''idx1'' =
          Some [(''X'', 3 / 5), (''Y'', 3 / 5)])
     [[''idx1'', ''idx2'', ''idx3''], [''idx1'', ''idx3'', ''idx2''],
      [''idx2'', ''idx1'', ''idx3''], [''idx2'', ''idx3'', ''idx1''],
      [''idx3'', ''idx1'', ''idx2''], [''idx3'', ''idx2'', ''idx1'']] \<and>
   index_results three_indexes new_processor (NdArray [1] [100]) ''idx1'' (1 / 2) 0 =
     [(''X'', 3 / 5), (''Y'', 3 / 5), (''B'', 1 / 2)] \<and>
   fst (search_in_multiple_indexes three_indexes new_processor (NdArray [1] [100])
          [''idx1'', ''idx2'', ''idx3''] [''idx1'', ''idx2'', ''idx3''] (1 / 2) 2) =
     [(''C'', 9 / 10), (''B'', 9 / 10)] \<and>
   spec_search_many three_indexes new_processor (NdArray [1] [100])
     [''idx1'', ''idx2'', ''idx3''] (1 / 2) 2 =
     [(''B'', 9 / 10), (''C'', 9 / 10)] \<and>
   fst (search_in_multiple_indexes three_indexes new_processor (NdArray [1] [100])
          [''idx1'', ''idx2'', ''idx3''] [''idx1'', ''idx2'', ''idx3''] (1 / 2) 2) \<noteq>
   spec_search_many three_indexes new_processor (NdArray [1] [100])
     [''idx1'', ''idx2'', ''idx3''] (1 / 2) 2"
proof -
  have a: "list_all
     (\<lambda>completion.
        map_of (fst (run_threads three_indexes (NdArray [1] [100]) (1 / 2) 2 completion
                       ([], new_processor))) ''idx1'' =
          Some [(''X'', 3 / 5), (''Y'', 3 / 5)])
     [[''idx1'', ''idx2'', ''idx3''], [''idx1'', ''idx3'', ''idx2''],
      [''idx2'', ''idx1'', ''idx3''], [''idx2'', ''idx3'', ''idx1''],
      [''idx3'', ''idx1'', ''idx2''], [''idx3'', ''idx2'', ''idx1'']]"
    by code_simp
  have b: "index_results three_indexes new_processor (NdArray [1] [100]) ''idx1'' (1 / 2) 0 =
     [(''X'', 3 / 5), (''Y'', 3 / 5), (''B'', 1 / 2)]"
    by code_simp
  have c: "fst (search_in_multiple_indexes three_indexes new_processor (NdArray [1] [100])
          [''idx1'', ''idx2'', ''idx3''] [''idx1'', ''idx2'', ''idx3''] (1 / 2) 2) =
     [(''C'', 9 / 10), (''B'', 9 / 10)]"
    by code_simp
  have d: "spec_search_many three_indexes new_processor (NdArray [1] [100])
             [''idx1'', ''idx2'', ''idx3''] (1 / 2) 2 =
     [(''B'', 9 / 10), (''C'', 9 / 10)]"
    by code_simp
  have e: "[(''C'', 9 / 10 :: rat), (''B'', 9 / 10)] \<noteq> [(''B'', 9 / 10), (''C'', 9 / 10)]"
    by simp
  show ?thesis
    unfolding c d by (intro conjI) (rule a b refl e)+
qed

end
